theory Spec2Isabelle
  imports Complex_Main "HOL-Library.Word" "HOL-Library.Finite_Map" "HOL-Library.Multiset"
begin

unbundle bit_operations_syntax

section \<open>Byte strings and decimal text\<close>

text \<open>
  A Go string is a sequence of bytes; it is modelled as an Isabelle \<open>string\<close> whose
  characters are those bytes.  \<open>uitoa\<close> is the decimal rendering of an unsigned number
  (\<open>strconv.AppendUint\<close> in base 10).
\<close>

type_synonym byte = "8 word"

definition isDigit :: "char \<Rightarrow> bool" where
  "isDigit c = (48 \<le> (of_char c :: nat) \<and> (of_char c :: nat) \<le> 57)"

definition digitVal :: "char \<Rightarrow> nat" where
  "digitVal c = (of_char c :: nat) - 48"

definition digitChar :: "nat \<Rightarrow> char" where
  "digitChar d = ''0123456789'' ! d"

fun uitoa :: "nat \<Rightarrow> string" where
  "uitoa n = (if n < 10 then [digitChar n] else uitoa (n div 10) @ [digitChar (n mod 10)])"

declare uitoa.simps [simp del]

section \<open>The address type of Go's net package\<close>

text \<open>
  \<open>net.IP\<close> and \<open>net.IPMask\<close> are byte slices of length 4 or 16 (a nil slice is the
  empty list); \<open>net.IPNet\<close> is a pair of both.
\<close>

type_synonym IP = "byte list"
type_synonym IPMask = "byte list"

record IPNet =
  IP :: IP
  Mask :: IPMask

definition v4InV6Prefix :: "byte list" where
  "v4InV6Prefix = [0, 0, 0, 0, 0, 0, 0, 0, 0, 0, 0xff, 0xff]"

text \<open>\<open>IP.To4\<close>: the 4-byte form of an IPv4 address, \<open>None\<close> for nil.\<close>

definition To4 :: "IP \<Rightarrow> IP option" where
  "To4 ip = (if length ip = 4 then Some ip
             else if length ip = 16 \<and> take 12 ip = v4InV6Prefix then Some (drop 12 ip)
             else None)"

text \<open>\<open>IP.Equal\<close>: an IPv4 address equals its 16-byte form.\<close>

definition Equal :: "IP \<Rightarrow> IP \<Rightarrow> bool" where
  "Equal ip x = (if length ip = length x then ip = x
                 else if length ip = 4 \<and> length x = 16 then take 12 x = v4InV6Prefix \<and> ip = drop 12 x
                 else if length ip = 16 \<and> length x = 4 then take 12 ip = v4InV6Prefix \<and> drop 12 ip = x
                 else False)"

definition allFF :: "byte list \<Rightarrow> bool" where
  "allFF bs = list_all (\<lambda>b. b = 0xff) bs"

text \<open>\<open>IP.Mask\<close>: the address masked bytewise; nil (the empty list) when the lengths do not fit.\<close>

definition Mask_ip :: "IP \<Rightarrow> IPMask \<Rightarrow> IP" where
  "Mask_ip ip0 mask0 =
     (let mask = (if length mask0 = 16 \<and> length ip0 = 4 \<and> allFF (take 12 mask0)
                  then drop 12 mask0 else mask0);
          ip = (if length mask = 4 \<and> length ip0 = 16 \<and> take 12 ip0 = v4InV6Prefix
                then drop 12 ip0 else ip0)
      in if length ip \<noteq> length mask then [] else map2 (\<lambda>b m. b AND m) ip mask)"

text \<open>\<open>CIDRMask ones bits\<close>: \<open>ones\<close> one-bits followed by zeros, on \<open>bits\<close> bits.\<close>

fun cidrMaskBytes :: "nat \<Rightarrow> nat \<Rightarrow> byte list" where
  "cidrMaskBytes 0 n = []"
| "cidrMaskBytes (Suc l) n =
     (if n \<ge> 8 then 0xff # cidrMaskBytes l (n - 8)
      else NOT (drop_bit n (0xff :: byte)) # cidrMaskBytes l 0)"

definition CIDRMask :: "int \<Rightarrow> int \<Rightarrow> IPMask" where
  "CIDRMask ones bits =
     (if bits \<noteq> 32 \<and> bits \<noteq> 128 then []
      else if ones < 0 \<or> ones > bits then []
      else cidrMaskBytes (nat (bits div 8)) (nat ones))"

text \<open>
  \<open>IPMask.Size\<close> through \<open>simpleMaskLength\<close>: the number of leading one-bits when the mask
  is ones followed by zeros, and \<open>(0, 0)\<close> otherwise.
\<close>

lemma bit7_ge: "bit (n::nat) 7 \<Longrightarrow> 128 \<le> n"
  by (rule ccontr) (simp add: bit_iff_odd_drop_bit drop_bit_eq_div)

lemma top_bit_ge: "(v::byte) AND 0x80 \<noteq> 0 \<Longrightarrow> 128 \<le> unat v"
proof -
  assume h: "v AND 0x80 \<noteq> 0"
  have "(0x80::byte) = 2 ^ 7" by simp
  with h have "bit v 7" using and_exp_eq_0_iff_not_bit[of v 7] by metis
  then have "bit (unat v) 7" by (simp add: bit_unsigned_iff)
  then show ?thesis by (rule bit7_ge)
qed

lemma shl_decreases: "128 \<le> unat (v::byte) \<Longrightarrow> unat (push_bit 1 v) < unat v"
proof -
  assume h: "128 \<le> unat v"
  have lt: "unat v < 256" using unsigned_less[of v] by simp
  have "(unat v * 2) mod 256 = (unat v * 2 - 256) mod 256" using h by (simp add: le_mod_geq)
  also have "\<dots> = unat v * 2 - 256" using lt by simp
  finally show ?thesis using h lt by (simp add: unat_word_ariths push_bit_eq_mult)
qed

function leadingOnes :: "byte \<Rightarrow> nat \<times> byte" where
  "leadingOnes v = (if v AND 0x80 \<noteq> 0 then (case leadingOnes (push_bit 1 v) of (n, r) \<Rightarrow> (Suc n, r))
                    else (0, v))"
  by pat_completeness auto
termination
proof (relation "measure unat")
  show "wf (measure (unat :: byte \<Rightarrow> nat))" by simp
next
  fix v :: byte
  assume "v AND 0x80 \<noteq> 0"
  then have "unat (push_bit 1 v) < unat v" by (intro shl_decreases top_bit_ge)
  then show "(push_bit 1 v, v) \<in> measure unat" by (simp only: in_measure)
qed

declare leadingOnes.simps [simp del]

fun simpleMaskLength :: "byte list \<Rightarrow> int" where
  "simpleMaskLength [] = 0"
| "simpleMaskLength (v # rest) =
     (if v = 0xff then (let n = simpleMaskLength rest in if n = -1 then -1 else n + 8)
      else (case leadingOnes v of (n, r) \<Rightarrow>
              if r \<noteq> 0 then -1
              else if list_all (\<lambda>b. b = 0) rest then int n else -1))"

definition Size_mask :: "IPMask \<Rightarrow> int \<times> int" where
  "Size_mask m = (let ones = simpleMaskLength m; bits = int (length m) * 8
                  in if ones = -1 then (0, 0) else (ones, bits))"

section \<open>Parsing and printing addresses\<close>

text \<open>
  \<open>parseIPv4Fields\<close> of \<open>net/netip\<close>: four decimal fields of at most 255 without leading
  zeros, separated by single dots.  \<open>prev\<close> is the previous character (\<open>None\<close> at the
  start), \<open>flds\<close> the fields completed so far.
\<close>

fun parseIPv4Fields :: "char option \<Rightarrow> nat \<Rightarrow> nat \<Rightarrow> byte list \<Rightarrow> string \<Rightarrow> byte list option" where
  "parseIPv4Fields prev val digLen flds [] =
     (if length flds < 3 then None else Some (flds @ [of_nat val]))"
| "parseIPv4Fields prev val digLen flds (c # cs) =
     (if isDigit c then
        (if digLen = 1 \<and> val = 0 then None
         else if val * 10 + digitVal c > 255 then None
         else parseIPv4Fields (Some c) (val * 10 + digitVal c) (Suc digLen) flds cs)
      else if c = CHR ''.'' then
        (if prev = None \<or> cs = [] \<or> prev = Some (CHR ''.'') then None
         else if length flds = 3 then None
         else parseIPv4Fields (Some c) 0 0 (flds @ [of_nat val]) cs)
      else None)"

declare parseIPv4Fields.simps [simp del]

definition parseIPv4 :: "string \<Rightarrow> byte list option" where
  "parseIPv4 s = parseIPv4Fields None 0 0 [] s"

text \<open>
  \<open>parseIPv6\<close> of \<open>net/netip\<close>, without zones (the callers here refuse an address with a
  zone): groups of at most four hex digits separated by colons, at most one \<open>::\<close>, and an
  optional dotted IPv4 tail.  \<open>ip\<close> holds the bytes parsed so far (Go's index \<open>i\<close> is its
  length), \<open>ellipsis\<close> the position of \<open>::\<close>.
\<close>

definition hexVal :: "char \<Rightarrow> nat option" where
  "hexVal c = (let n = (of_char c :: nat) in
     if 48 \<le> n \<and> n \<le> 57 then Some (n - 48)
     else if 97 \<le> n \<and> n \<le> 102 then Some (n - 97 + 10)
     else if 65 \<le> n \<and> n \<le> 70 then Some (n - 65 + 10)
     else None)"

fun scanHex :: "nat \<Rightarrow> nat \<Rightarrow> string \<Rightarrow> (nat \<times> nat \<times> string) option" where
  "scanHex off acc [] = Some (off, acc, [])"
| "scanHex off acc (c # cs) =
     (case hexVal c of
        None \<Rightarrow> Some (off, acc, c # cs)
      | Some d \<Rightarrow>
          if off > 3 then None
          else if acc * 16 + d > 65535 then None
          else scanHex (Suc off) (acc * 16 + d) cs)"

function parseIPv6Loop :: "IP \<Rightarrow> nat option \<Rightarrow> string \<Rightarrow> (IP \<times> nat option \<times> string) option" where
  "parseIPv6Loop ip ellipsis s =
     (if length ip \<ge> 16 then Some (ip, ellipsis, s)
      else case scanHex 0 0 s of
        None \<Rightarrow> None
      | Some (off, acc, rest) \<Rightarrow>
          if off = 0 then None
          else if rest \<noteq> [] \<and> hd rest = CHR ''.'' then
            (if ellipsis = None \<and> length ip \<noteq> 12 then None
             else if length ip + 4 > 16 then None
             else case parseIPv4 s of
                    None \<Rightarrow> None
                  | Some v4 \<Rightarrow> Some (ip @ v4, ellipsis, []))
          else if rest = [] then Some (ip @ [of_nat (acc div 256), of_nat acc], ellipsis, [])
          else if hd rest \<noteq> CHR '':'' then None
          else if length rest = 1 then None
          else if hd (tl rest) = CHR '':'' then
            (if ellipsis \<noteq> None then None
             else if tl (tl rest) = []
               then Some (ip @ [of_nat (acc div 256), of_nat acc], Some (length ip + 2), [])
             else parseIPv6Loop (ip @ [of_nat (acc div 256), of_nat acc]) (Some (length ip + 2)) (tl (tl rest)))
          else parseIPv6Loop (ip @ [of_nat (acc div 256), of_nat acc]) ellipsis (tl rest))"
  by pat_completeness auto
termination
  by (relation "measure (\<lambda>(ip, e, s). 16 - length ip)") auto

declare parseIPv6Loop.simps [simp del]

definition parseIPv6 :: "string \<Rightarrow> IP option" where
  "parseIPv6 s0 =
     (let lead = (length s0 \<ge> 2 \<and> s0 ! 0 = CHR '':'' \<and> s0 ! 1 = CHR '':'');
          s = (if lead then drop 2 s0 else s0);
          ellipsis0 = (if lead then Some 0 else None)
      in if lead \<and> s = [] then Some (replicate 16 0)
         else case parseIPv6Loop [] ellipsis0 s of
           None \<Rightarrow> None
         | Some (ip, ellipsis, rest) \<Rightarrow>
             if rest \<noteq> [] then None
             else if length ip < 16 then
               (case ellipsis of
                  None \<Rightarrow> None
                | Some e \<Rightarrow> Some (take e ip @ replicate (16 - length ip) 0 @ drop e ip))
             else if ellipsis \<noteq> None then None
             else Some ip)"

text \<open>
  \<open>netip.ParseAddr\<close> dispatches on the first of \<open>.\<close>, \<open>:\<close> and \<open>%\<close>; \<open>net.ParseIP\<close>
  returns the 16-byte form of the address and nil (\<open>None\<close>) on a parse error or a zone.
  \<open>parseAddr\<close> also reports whether the text was IPv4, which \<open>net.ParseCIDR\<close> needs.
\<close>

fun firstSep :: "string \<Rightarrow> char option" where
  "firstSep [] = None"
| "firstSep (c # cs) =
     (if c = CHR ''.'' \<or> c = CHR '':'' \<or> c = CHR ''%'' then Some c else firstSep cs)"

definition parseAddr :: "string \<Rightarrow> (bool \<times> IP) option" where
  "parseAddr s =
     (if CHR ''%'' \<in> set s then None
      else if firstSep s = Some (CHR ''.'') then
        (case parseIPv4 s of None \<Rightarrow> None | Some v4 \<Rightarrow> Some (True, v4InV6Prefix @ v4))
      else if firstSep s = Some (CHR '':'') then
        (case parseIPv6 s of None \<Rightarrow> None | Some v6 \<Rightarrow> Some (False, v6))
      else None)"

definition ParseIP :: "string \<Rightarrow> IP option" where
  "ParseIP s = map_option snd (parseAddr s)"

text \<open>\<open>dtoi\<close>: a decimal prefix of the text, its length, and whether it is a number below \<open>0xFFFFFF\<close>.\<close>

fun dtoiLoop :: "nat \<Rightarrow> nat \<Rightarrow> string \<Rightarrow> nat \<times> nat \<times> bool" where
  "dtoiLoop n i [] = (if i = 0 then (0, 0, False) else (n, i, True))"
| "dtoiLoop n i (c # cs) =
     (if isDigit c then
        (if n * 10 + digitVal c \<ge> 0xFFFFFF then (0xFFFFFF, i, False)
         else dtoiLoop (n * 10 + digitVal c) (Suc i) cs)
      else if i = 0 then (0, 0, False) else (n, i, True))"

definition dtoi :: "string \<Rightarrow> nat \<times> nat \<times> bool" where
  "dtoi s = dtoiLoop 0 0 s"

text \<open>\<open>net.ParseCIDR\<close>; only the network is modelled, the callers here drop the address.\<close>

definition ParseCIDR :: "string \<Rightarrow> IPNet option" where
  "ParseCIDR s =
     (if CHR ''/'' \<notin> set s then None
      else let addr = takeWhile (\<lambda>c. c \<noteq> CHR ''/'') s;
               mask = tl (dropWhile (\<lambda>c. c \<noteq> CHR ''/'') s)
           in case parseAddr addr of
                None \<Rightarrow> None
              | Some (is4, addr16) \<Rightarrow>
                  (case dtoi mask of (n, i, ok) \<Rightarrow>
                     let bitLen = (if is4 then 32 else 128 :: int) in
                     if \<not> ok \<or> i \<noteq> length mask \<or> int n > bitLen then None
                     else let m = CIDRMask (int n) bitLen
                          in Some \<lparr>IP = Mask_ip addr16 m, Mask = m\<rparr>))"

text \<open>\<open>IP.String\<close>: dotted decimal for an IPv4 address in either form, IPv6 text otherwise.\<close>

definition dotted :: "byte list \<Rightarrow> string" where
  "dotted p4 = uitoa (unat (p4 ! 0)) @ ''.'' @ uitoa (unat (p4 ! 1)) @ ''.'' @
               uitoa (unat (p4 ! 2)) @ ''.'' @ uitoa (unat (p4 ! 3))"

definition hexDigitChar :: "nat \<Rightarrow> char" where
  "hexDigitChar d = ''0123456789abcdef'' ! d"

fun appendHex :: "nat \<Rightarrow> string" where
  "appendHex n = (if n < 16 then [hexDigitChar n] else appendHex (n div 16) @ [hexDigitChar (n mod 16)])"

declare appendHex.simps [simp del]

definition hexString :: "byte list \<Rightarrow> string" where
  "hexString bs = concat (map (\<lambda>b. [hexDigitChar (unat b div 16), hexDigitChar (unat b mod 16)]) bs)"

fun v6u16 :: "byte list \<Rightarrow> nat list" where
  "v6u16 (a # b # rest) = (unat a * 256 + unat b) # v6u16 rest"
| "v6u16 _ = []"

definition zeroRunAt :: "nat list \<Rightarrow> nat \<Rightarrow> nat" where
  "zeroRunAt gs i = i + length (takeWhile (\<lambda>g. g = 0) (drop i gs))"

definition longestZeroRun :: "nat list \<Rightarrow> nat \<times> nat" where
  "longestZeroRun gs =
     foldl (\<lambda>(zs, ze) i. let j = zeroRunAt gs i in
                          if j - i \<ge> 2 \<and> j - i > ze - zs then (i, j) else (zs, ze))
           (255, 255) [0 ..< 8]"

definition joinColon :: "string list \<Rightarrow> string" where
  "joinColon xs = concat (case xs of [] \<Rightarrow> [] | x # rest \<Rightarrow> x # map (\<lambda>y. '':'' @ y) rest)"

definition string6 :: "nat list \<Rightarrow> string" where
  "string6 gs =
     (case longestZeroRun gs of (zs, ze) \<Rightarrow>
        if zs < 8 then joinColon (map appendHex (take zs gs)) @ ''::'' @ joinColon (map appendHex (drop ze gs))
        else joinColon (map appendHex gs))"

definition String_ip :: "IP \<Rightarrow> string" where
  "String_ip ip =
     (if length ip = 0 then ''<nil>''
      else if length ip \<noteq> 4 \<and> length ip \<noteq> 16 then ''?'' @ hexString ip
      else case To4 ip of
             Some p4 \<Rightarrow> dotted p4
           | None \<Rightarrow> string6 (v6u16 ip))"

text \<open>\<open>IPNet.Contains\<close> with \<open>networkNumberAndMask\<close>.\<close>

definition networkNumberAndMask :: "IPNet \<Rightarrow> (IP \<times> IPMask) option" where
  "networkNumberAndMask n =
     (let ip = (case To4 (IP n) of Some p4 \<Rightarrow> p4 | None \<Rightarrow> IP n) in
      if To4 (IP n) = None \<and> length ip \<noteq> 16 then None
      else if length (Mask n) = 4 then (if length ip \<noteq> 4 then None else Some (ip, Mask n))
      else if length (Mask n) = 16 then
        (if length ip = 4 then Some (ip, drop 12 (Mask n)) else Some (ip, Mask n))
      else None)"

definition Contains :: "IPNet \<Rightarrow> IP \<Rightarrow> bool" where
  "Contains n ip0 =
     (case networkNumberAndMask n of
        None \<Rightarrow> length (case To4 ip0 of Some x \<Rightarrow> x | None \<Rightarrow> ip0) = 0
      | Some (nn, m) \<Rightarrow>
          (let ip = (case To4 ip0 of Some x \<Rightarrow> x | None \<Rightarrow> ip0) in
           length ip = length nn \<and>
           list_all (\<lambda>i. (nn ! i) AND (m ! i) = (ip ! i) AND (m ! i)) [0 ..< length ip]))"

section \<open>The IP pool\<close>

text \<open>
  \<open>incrementIP\<close> adds \<open>inc\<close> to an address, byte by byte from the last one, carrying
  into the earlier bytes while the carry is positive.  The recursion runs over the reversed
  address, so that its head is the byte at the loop's index.
\<close>

fun incrementRev :: "byte list \<Rightarrow> int \<Rightarrow> byte list" where
  "incrementRev [] inc = []"
| "incrementRev (b # bs) inc =
     (if inc > 0
      then word_of_int ((uint b + inc) AND 0xFF) # incrementRev bs (drop_bit 8 (uint b + inc))
      else b # bs)"

definition incrementIP :: "IP \<Rightarrow> int \<Rightarrow> IP" where
  "incrementIP ip inc = rev (incrementRev (rev ip) inc)"

datatype PoolError =
    InvalidCIDR
  | IPv6NotSupported
  | NetworkTooSmall
  | NoAvailableIP
  | InvalidIP string
  | NotInRange string
  | IsNetworkAddress string
  | IsBroadcastAddress string
  | ReservedForServer string
  | AlreadyAllocated string
  | NotAllocated string
  | CannotReleaseServer string

record IPPool =
  network :: string
  ipNet :: IPNet
  serverIP :: string
  allocated :: "(string, bool) fmap"
  networkAddress :: string
  broadcastAddress :: string
  totalHosts :: int

text \<open>Reading \<open>p.allocated[ip]\<close>: a missing key reads as \<open>false\<close>.\<close>

definition isSet :: "(string, bool) fmap \<Rightarrow> string \<Rightarrow> bool" where
  "isSet m k = (case fmlookup m k of None \<Rightarrow> False | Some b \<Rightarrow> b)"

definition NewIPPool :: "string \<Rightarrow> PoolError + IPPool" where
  "NewIPPool cidr =
     (case ParseCIDR cidr of
        None \<Rightarrow> Inl InvalidCIDR
      | Some ipnet \<Rightarrow>
          if To4 (IP ipnet) = None then Inl IPv6NotSupported
          else case Size_mask (Mask ipnet) of (ones, bits) \<Rightarrow>
            if bits - ones < 3 then Inl NetworkTooSmall
            else
              let networkAddr = Mask_ip (IP ipnet) (Mask ipnet);
                  broadcastAddr = map2 (\<lambda>b m. b OR NOT m) networkAddr (Mask ipnet);
                  server = String_ip (incrementIP networkAddr 1)
              in Inr \<lparr>network = cidr,
                      ipNet = ipnet,
                      serverIP = server,
                      allocated = fmupd server True fmempty,
                      networkAddress = String_ip networkAddr,
                      broadcastAddress = String_ip broadcastAddr,
                      totalHosts = 2 ^ nat (bits - ones) - 2\<rparr>)"

text \<open>
  The scan of \<open>AllocateIP\<close>: from \<open>currentIP\<close> upwards until the broadcast address is
  reached.  The Go loop has no other exit, so the model is a partial function: \<open>None\<close>
  stands for a scan that never ends.
\<close>

partial_function (option) allocateScan ::
  "(string, bool) fmap \<Rightarrow> IP \<Rightarrow> IP \<Rightarrow> ((PoolError + string) \<times> (string, bool) fmap) option" where
  "allocateScan al currentIP broadcastIP =
     (if Equal currentIP broadcastIP then Some (Inl NoAvailableIP, al)
      else if \<not> isSet al (String_ip currentIP)
        then Some (Inr (String_ip currentIP), fmupd (String_ip currentIP) True al)
      else allocateScan al (incrementIP currentIP 1) broadcastIP)"

declare allocateScan.simps [code]

definition AllocateIP :: "IPPool \<Rightarrow> ((PoolError + string) \<times> IPPool) option" where
  "AllocateIP p =
     map_option (\<lambda>(r, al). (r, p\<lparr>allocated := al\<rparr>))
       (allocateScan (allocated p)
          (incrementIP (Mask_ip (IP (ipNet p)) (Mask (ipNet p))) 2)
          (case ParseIP (broadcastAddress p) of None \<Rightarrow> [] | Some b \<Rightarrow> b))"

definition AllocateSpecificIP :: "IPPool \<Rightarrow> string \<Rightarrow> PoolError + IPPool" where
  "AllocateSpecificIP p ip =
     (case ParseIP ip of
        None \<Rightarrow> Inl (InvalidIP ip)
      | Some parsedIP \<Rightarrow>
          if \<not> Contains (ipNet p) parsedIP then Inl (NotInRange ip)
          else if ip = networkAddress p then Inl (IsNetworkAddress ip)
          else if ip = broadcastAddress p then Inl (IsBroadcastAddress ip)
          else if ip = serverIP p then Inl (ReservedForServer ip)
          else if isSet (allocated p) ip then Inl (AlreadyAllocated ip)
          else Inr (p\<lparr>allocated := fmupd ip True (allocated p)\<rparr>))"

definition ReleaseIP :: "IPPool \<Rightarrow> string \<Rightarrow> PoolError + IPPool" where
  "ReleaseIP p ip =
     (case ParseIP ip of
        None \<Rightarrow> Inl (InvalidIP ip)
      | Some parsedIP \<Rightarrow>
          if \<not> Contains (ipNet p) parsedIP then Inl (NotInRange ip)
          else if \<not> isSet (allocated p) ip then Inl (NotAllocated ip)
          else if ip = serverIP p then Inl (CannotReleaseServer ip)
          else Inr (p\<lparr>allocated := fmdrop ip (allocated p)\<rparr>))"

definition IsAllocated :: "IPPool \<Rightarrow> string \<Rightarrow> bool" where
  "IsAllocated p ip = isSet (allocated p) ip"

definition GetServerIP :: "IPPool \<Rightarrow> string" where
  "GetServerIP p = serverIP p"

definition len_allocated :: "IPPool \<Rightarrow> int" where
  "len_allocated p = int (fcard (fmdom (allocated p)))"

definition GetAvailableCount :: "IPPool \<Rightarrow> int" where
  "GetAvailableCount p = (let allocatedCount = len_allocated p - 1 in totalHosts p - 1 - allocatedCount)"

definition GetTotalIPs :: "IPPool \<Rightarrow> int" where
  "GetTotalIPs p = totalHosts p"

definition GetAllocatedCount :: "IPPool \<Rightarrow> int" where
  "GetAllocatedCount p = len_allocated p"

lemma lt10_cases: "d < 10 \<Longrightarrow> d = 0 \<or> d = 1 \<or> d = 2 \<or> d = 3 \<or> d = 4 \<or> d = 5 \<or> d = 6 \<or> d = 7 \<or> d = 8 \<or> d = (9::nat)"
  by arith

lemma digitChar_props:
  assumes "d < 10"
  shows "isDigit (digitChar d)" and "digitVal (digitChar d) = d"
    and "digitChar d \<noteq> CHR ''.''" and "digitChar d \<noteq> CHR '':''" and "digitChar d \<noteq> CHR ''%''"
  using lt10_cases[OF assms] by (auto simp: digitChar_def isDigit_def digitVal_def)

lemma uitoa_1: "n < 10 \<Longrightarrow> uitoa n = [digitChar n]"
  by (subst uitoa.simps) simp

lemma uitoa_2: "10 \<le> n \<Longrightarrow> n < 100 \<Longrightarrow> uitoa n = [digitChar (n div 10), digitChar (n mod 10)]"
proof -
  assume a: "10 \<le> n" "n < 100"
  then have b: "n div 10 < 10" by simp
  have "uitoa n = uitoa (n div 10) @ [digitChar (n mod 10)]"
    using a by (subst uitoa.simps) simp
  then show ?thesis using uitoa_1[OF b] by simp
qed

lemma uitoa_3: "100 \<le> n \<Longrightarrow> n < 1000 \<Longrightarrow>
  uitoa n = [digitChar (n div 10 div 10), digitChar (n div 10 mod 10), digitChar (n mod 10)]"
proof -
  assume a: "100 \<le> n" "n < 1000"
  have b: "10 \<le> n div 10" "n div 10 < 100"
    using a div_le_mono[of 100 n 10] by (simp_all add: less_mult_imp_div_less)
  have "uitoa n = uitoa (n div 10) @ [digitChar (n mod 10)]"
    using a by (subst uitoa.simps) simp
  then show ?thesis using uitoa_2[OF b] by simp
qed

lemma parse_digit:
  "d < 10 \<Longrightarrow> \<not> (dl = 1 \<and> v = 0) \<Longrightarrow> v * 10 + d \<le> 255 \<Longrightarrow>
   parseIPv4Fields prev v dl flds (digitChar d # cs) = parseIPv4Fields (Some (digitChar d)) (v * 10 + d) (Suc dl) flds cs"
  using digitChar_props[of d] by (auto simp add: parseIPv4Fields.simps)

lemma firstSep_digit: "d < 10 \<Longrightarrow> firstSep (digitChar d # cs) = firstSep cs"
  using digitChar_props[of d] by auto

lemma parse_field1:
  "n < 10 \<Longrightarrow> parseIPv4Fields prev 0 0 flds (uitoa n @ rest) = parseIPv4Fields (Some (digitChar n)) n 1 flds rest"
  apply (subst uitoa_1, assumption)
  apply (simp only: append_Cons append_Nil)
  apply (subst parse_digit)
  apply simp_all
  done

lemma parse_field2:
  assumes "10 \<le> n" "n < 100"
  shows "parseIPv4Fields prev 0 0 flds (uitoa n @ rest) = parseIPv4Fields (Some (digitChar (n mod 10))) n 2 flds rest"
proof -
  have a: "n div 10 < 10" "n mod 10 < 10" "0 < n div 10"
    using assms by (simp_all add: less_mult_imp_div_less div_greater_zero_iff)
  have s0: "uitoa n @ rest = digitChar (n div 10) # digitChar (n mod 10) # rest"
    by (simp only: uitoa_2[OF assms] append_Cons append_Nil)
  have s1: "parseIPv4Fields prev 0 0 flds (digitChar (n div 10) # digitChar (n mod 10) # rest)
     = parseIPv4Fields (Some (digitChar (n div 10))) (n div 10) (Suc 0) flds (digitChar (n mod 10) # rest)"
    using parse_digit[of "n div 10" 0 0 prev flds "digitChar (n mod 10) # rest"] a by simp
  have s2: "parseIPv4Fields (Some (digitChar (n div 10))) (n div 10) (Suc 0) flds (digitChar (n mod 10) # rest)
     = parseIPv4Fields (Some (digitChar (n mod 10))) n (Suc (Suc 0)) flds rest"
    using parse_digit[of "n mod 10" "Suc 0" "n div 10" "Some (digitChar (n div 10))" flds rest] a assms by simp
  show ?thesis by (simp only: s0 s1 s2 numeral_2_eq_2)
qed

lemma parse_field3:
  assumes "100 \<le> n" "n < 256"
  shows "parseIPv4Fields prev 0 0 flds (uitoa n @ rest) = parseIPv4Fields (Some (digitChar (n mod 10))) n 3 flds rest"
proof -
  have a: "n div 10 div 10 < 10" "n div 10 mod 10 < 10" "n mod 10 < 10" "0 < n div 10 div 10"
    using assms by (simp_all add: less_mult_imp_div_less div_greater_zero_iff le_div_geq)
  have lt: "n < 1000" using assms by simp
  have s0: "uitoa n @ rest = digitChar (n div 10 div 10) # digitChar (n div 10 mod 10) # digitChar (n mod 10) # rest"
    by (simp only: uitoa_3[OF assms(1) lt] append_Cons append_Nil)
  have s1: "parseIPv4Fields prev 0 0 flds (digitChar (n div 10 div 10) # digitChar (n div 10 mod 10) # digitChar (n mod 10) # rest)
     = parseIPv4Fields (Some (digitChar (n div 10 div 10))) (n div 10 div 10) (Suc 0) flds
          (digitChar (n div 10 mod 10) # digitChar (n mod 10) # rest)"
    using parse_digit[of "n div 10 div 10" 0 0 prev flds "digitChar (n div 10 mod 10) # digitChar (n mod 10) # rest"] a by simp
  have s2: "parseIPv4Fields (Some (digitChar (n div 10 div 10))) (n div 10 div 10) (Suc 0) flds
          (digitChar (n div 10 mod 10) # digitChar (n mod 10) # rest)
     = parseIPv4Fields (Some (digitChar (n div 10 mod 10))) (n div 10) (Suc (Suc 0)) flds (digitChar (n mod 10) # rest)"
    using parse_digit[of "n div 10 mod 10" "Suc 0" "n div 10 div 10" "Some (digitChar (n div 10 div 10))" flds
           "digitChar (n mod 10) # rest"] a assms by simp
  have s3: "parseIPv4Fields (Some (digitChar (n div 10 mod 10))) (n div 10) (Suc (Suc 0)) flds (digitChar (n mod 10) # rest)
     = parseIPv4Fields (Some (digitChar (n mod 10))) n (Suc (Suc (Suc 0))) flds rest"
    using parse_digit[of "n mod 10" "Suc (Suc 0)" "n div 10" "Some (digitChar (n div 10 mod 10))" flds rest] a assms by simp
  show ?thesis by (simp only: s0 s1 s2 s3 numeral_3_eq_3)
qed

lemma parse_field:
  assumes "n < 256"
  shows "\<exists>c dl. c \<noteq> CHR ''.'' \<and>
                parseIPv4Fields prev 0 0 flds (uitoa n @ rest) = parseIPv4Fields (Some c) n dl flds rest"
proof -
  have "n < 10 \<or> (10 \<le> n \<and> n < 100) \<or> (100 \<le> n \<and> n < 256)"
    using assms unfolding not_less[symmetric] by blast
  then consider "n < 10" | "10 \<le> n" "n < 100" | "100 \<le> n" "n < 256" by blast
  then show ?thesis
  proof cases
    case 1
    show ?thesis
      by (rule exI[of _ "digitChar n"], rule exI[of _ 1], rule conjI[OF digitChar_props(3)[OF 1] parse_field1[OF 1]])
  next
    case 2
    have m: "n mod 10 < 10" by simp
    show ?thesis
      by (rule exI[of _ "digitChar (n mod 10)"], rule exI[of _ 2], rule conjI[OF digitChar_props(3)[OF m] parse_field2[OF 2]])
  next
    case 3
    have m: "n mod 10 < 10" by simp
    show ?thesis
      by (rule exI[of _ "digitChar (n mod 10)"], rule exI[of _ 3], rule conjI[OF digitChar_props(3)[OF m] parse_field3[OF 3]])
  qed
qed

lemma uitoa_seps:
  assumes "n < 256"
  shows "uitoa n \<noteq> []" and "firstSep (uitoa n @ rest) = firstSep rest" and "CHR ''%'' \<notin> set (uitoa n)"
    and "CHR '':'' \<notin> set (uitoa n)"
proof -
  have lt: "n < 1000" using assms by simp
  have "n < 10 \<or> (10 \<le> n \<and> n < 100) \<or> (100 \<le> n \<and> n < 1000)"
    using lt unfolding not_less[symmetric] by blast
  then consider "n < 10" | "10 \<le> n" "n < 100" | "100 \<le> n" "n < 1000" by blast
  then have "uitoa n \<noteq> [] \<and> firstSep (uitoa n @ rest) = firstSep rest \<and> CHR ''%'' \<notin> set (uitoa n)
      \<and> CHR '':'' \<notin> set (uitoa n)"
  proof cases
    case 1
    then show ?thesis using digitChar_props[OF 1] by (simp add: uitoa_1 firstSep_digit)
  next
    case 2
    then have a: "n div 10 < 10" "n mod 10 < 10" by (simp_all add: less_mult_imp_div_less)
    show ?thesis using 2 digitChar_props[OF a(1)] digitChar_props[OF a(2)] a
      by (simp add: uitoa_2 firstSep_digit)
  next
    case 3
    then have a: "n div 10 div 10 < 10" "n div 10 mod 10 < 10" "n mod 10 < 10"
      by (simp_all add: less_mult_imp_div_less)
    show ?thesis using 3 digitChar_props[OF a(1)] digitChar_props[OF a(2)] digitChar_props[OF a(3)] a
      by (simp add: uitoa_3 firstSep_digit)
  qed
  then show "uitoa n \<noteq> []" and "firstSep (uitoa n @ rest) = firstSep rest" and "CHR ''%'' \<notin> set (uitoa n)"
    and "CHR '':'' \<notin> set (uitoa n)" by auto
qed

lemma parse_dot:
  "c \<noteq> CHR ''.'' \<Longrightarrow> cs \<noteq> [] \<Longrightarrow> length flds < 3 \<Longrightarrow>
   parseIPv4Fields (Some c) v dl flds (CHR ''.'' # cs) = parseIPv4Fields (Some (CHR ''.'')) 0 0 (flds @ [of_nat v]) cs"
  by (simp add: parseIPv4Fields.simps isDigit_def)

lemma parse_end:
  "length flds = 3 \<Longrightarrow> parseIPv4Fields prev v dl flds [] = Some (flds @ [of_nat v])"
  by (simp add: parseIPv4Fields.simps)

lemma unat_byte_lt: "unat (b::byte) < 256"
  using unsigned_less[of b] by simp

lemma parseIPv4_dotted:
  "parseIPv4 (dotted [a, b, c, d]) = Some [a, b, c, d]"
proof -
  define R3 where "R3 = uitoa (unat d)"
  define R2 where "R2 = uitoa (unat c) @ CHR ''.'' # R3"
  define R1 where "R1 = uitoa (unat b) @ CHR ''.'' # R2"
  have ne: "R3 \<noteq> []" "R2 \<noteq> []" "R1 \<noteq> []"
    using uitoa_seps(1)[OF unat_byte_lt] by (simp_all add: R3_def R2_def R1_def)
  have d: "dotted [a, b, c, d] = uitoa (unat a) @ CHR ''.'' # R1"
    by (simp add: dotted_def R1_def R2_def R3_def)
  obtain c1 dl1 where s1: "c1 \<noteq> CHR ''.''"
    "parseIPv4Fields None 0 0 [] (uitoa (unat a) @ CHR ''.'' # R1) = parseIPv4Fields (Some c1) (unat a) dl1 [] (CHR ''.'' # R1)"
    using parse_field[where n="unat a" and prev=None and flds="[]" and rest="CHR ''.'' # R1", OF unat_byte_lt] by blast
  obtain c2 dl2 where s2: "c2 \<noteq> CHR ''.''"
    "parseIPv4Fields (Some (CHR ''.'')) 0 0 [a] (uitoa (unat b) @ CHR ''.'' # R2) = parseIPv4Fields (Some c2) (unat b) dl2 [a] (CHR ''.'' # R2)"
    using parse_field[where n="unat b" and prev="Some (CHR ''.'')" and flds="[a]" and rest="CHR ''.'' # R2", OF unat_byte_lt] by blast
  obtain c3 dl3 where s3: "c3 \<noteq> CHR ''.''"
    "parseIPv4Fields (Some (CHR ''.'')) 0 0 [a, b] (uitoa (unat c) @ CHR ''.'' # R3) = parseIPv4Fields (Some c3) (unat c) dl3 [a, b] (CHR ''.'' # R3)"
    using parse_field[where n="unat c" and prev="Some (CHR ''.'')" and flds="[a, b]" and rest="CHR ''.'' # R3", OF unat_byte_lt] by blast
  obtain c4 dl4 where s4: "c4 \<noteq> CHR ''.''"
    "parseIPv4Fields (Some (CHR ''.'')) 0 0 [a, b, c] (uitoa (unat d) @ []) = parseIPv4Fields (Some c4) (unat d) dl4 [a, b, c] []"
    using parse_field[where n="unat d" and prev="Some (CHR ''.'')" and flds="[a, b, c]" and rest="[]", OF unat_byte_lt] by blast
  have t1: "parseIPv4Fields (Some c1) (unat a) dl1 [] (CHR ''.'' # R1) = parseIPv4Fields (Some (CHR ''.'')) 0 0 [a] R1"
    using parse_dot[OF s1(1) ne(3), of "[]" "unat a" dl1] by simp
  have t2: "parseIPv4Fields (Some c2) (unat b) dl2 [a] (CHR ''.'' # R2) = parseIPv4Fields (Some (CHR ''.'')) 0 0 [a, b] R2"
    using parse_dot[OF s2(1) ne(2), of "[a]" "unat b" dl2] by simp
  have t3: "parseIPv4Fields (Some c3) (unat c) dl3 [a, b] (CHR ''.'' # R3) = parseIPv4Fields (Some (CHR ''.'')) 0 0 [a, b, c] R3"
    using parse_dot[OF s3(1) ne(1), of "[a, b]" "unat c" dl3] by simp
  have t4: "parseIPv4Fields (Some c4) (unat d) dl4 [a, b, c] [] = Some [a, b, c, d]"
    using parse_end[of "[a, b, c]" "Some c4" "unat d" dl4] by simp
  have "parseIPv4 (dotted [a, b, c, d]) = parseIPv4Fields None 0 0 [] (uitoa (unat a) @ CHR ''.'' # R1)"
    by (simp only: parseIPv4_def d)
  also have "\<dots> = parseIPv4Fields (Some (CHR ''.'')) 0 0 [a] R1" by (simp only: s1(2) t1)
  also have "\<dots> = parseIPv4Fields (Some (CHR ''.'')) 0 0 [a, b] R2" by (simp only: R1_def s2(2) t2)
  also have "\<dots> = parseIPv4Fields (Some (CHR ''.'')) 0 0 [a, b, c] R3" by (simp only: R2_def s3(2) t3)
  also have "\<dots> = Some [a, b, c, d]" using s4(2) t4 by (simp only: R3_def append_Nil2)
  finally show ?thesis .
qed

lemma firstSep_dotted: "firstSep (dotted [a, b, c, d]) = Some (CHR ''.'')"
  by (simp add: dotted_def uitoa_seps(2)[OF unat_byte_lt])

lemma percent_dotted: "CHR ''%'' \<notin> set (dotted [a, b, c, d])"
  using uitoa_seps(3)[OF unat_byte_lt] by (simp add: dotted_def)

lemma len4_cases: "length (q::'a list) = 4 \<Longrightarrow> \<exists>a b c d. q = [a, b, c, d]"
  by (cases q; simp; rename_tac q1; case_tac q1; simp; rename_tac q2; case_tac q2; simp;
      rename_tac q3; case_tac q3; simp)

lemma parseAddr_dotted: "length q = 4 \<Longrightarrow> parseAddr (dotted q) = Some (True, v4InV6Prefix @ q)"
proof -
  assume "length q = 4"
  then obtain a b c d where q: "q = [a, b, c, d]" using len4_cases by blast
  show ?thesis
    unfolding q parseAddr_def
    by (simp only: firstSep_dotted percent_dotted parseIPv4_dotted if_True if_False option.case refl)
qed

lemma ParseIP_dotted: "length q = 4 \<Longrightarrow> ParseIP (dotted q) = Some (v4InV6Prefix @ q)"
  by (simp add: ParseIP_def parseAddr_dotted)

lemma dotted_inj: "length q = 4 \<Longrightarrow> length r = 4 \<Longrightarrow> dotted q = dotted r \<Longrightarrow> q = r"
proof -
  assume a: "length q = 4" "length r = 4" "dotted q = dotted r"
  have "Some (v4InV6Prefix @ q) = Some (v4InV6Prefix @ r)"
    using ParseIP_dotted[OF a(1)] ParseIP_dotted[OF a(2)] a(3) by (simp only:)
  then show ?thesis by simp
qed

fun lev :: "byte list \<Rightarrow> nat" where
  "lev [] = 0"
| "lev (b # bs) = unat b + 256 * lev bs"

definition ipv :: "IP \<Rightarrow> nat" where
  "ipv ip = lev (rev ip)"

lemma lev_lt: "lev bs < 256 ^ length bs"
proof (induction bs)
  case Nil
  then show ?case by simp
next
  case (Cons b bs)
  have "unat b < 256" by (rule unat_byte_lt)
  then have "unat b + 256 * lev bs < 256 * (lev bs + 1)" by simp
  also have "\<dots> \<le> 256 * 256 ^ length bs" using Cons by (intro mult_le_mono2) simp
  finally show ?case by simp
qed

lemma lev_inj: "length xs = length ys \<Longrightarrow> lev xs = lev ys \<Longrightarrow> xs = ys"
proof (induction xs ys rule: list_induct2)
  case Nil
  then show ?case by simp
next
  case (Cons x xs y ys)
  have a: "unat x < 256" "unat y < 256" by (rule unat_byte_lt)+
  have e: "unat x + 256 * lev xs = unat y + 256 * lev ys" using Cons.prems by simp
  have "(unat x + 256 * lev xs) mod 256 = (unat y + 256 * lev ys) mod 256" using e by simp
  then have x: "unat x = unat y" using a by simp
  then have "lev xs = lev ys" using e by simp
  then show ?case using Cons.IH x by (simp add: word_unat_eq_iff)
qed

lemma ipv_lt: "ipv ip < 256 ^ length ip"
  using lev_lt[of "rev ip"] by (simp add: ipv_def)

lemma ipv_inj: "length xs = length ys \<Longrightarrow> ipv xs = ipv ys \<Longrightarrow> xs = ys"
  using lev_inj[of "rev xs" "rev ys"] by (simp add: ipv_def)

lemma incrementRev_zero: "incrementRev bs 0 = bs"
  by (cases bs) simp_all

lemma incrementRev_length: "length (incrementRev bs k) = length bs"
  by (induction bs arbitrary: k) simp_all

lemma int_and_255: "(int s) AND 0xFF = int (s mod 256)"
proof -
  have "(0xFF::int) = mask 8" by (simp add: mask_eq_exp_minus_1)
  then have "(int s) AND 0xFF = take_bit 8 (int s)" by (simp only: take_bit_eq_mask)
  also have "\<dots> = int s mod 2 ^ 8" by (rule take_bit_eq_mod)
  also have "\<dots> = int (s mod 256)" by (simp add: zmod_int)
  finally show ?thesis .
qed

lemma byte_step:
  assumes "0 \<le> k"
  shows "unat (word_of_int ((uint b + k) AND 0xFF) :: byte) = (unat b + nat k) mod 256"
    and "0 \<le> drop_bit 8 (uint b + k)"
    and "nat (drop_bit 8 (uint (b::byte) + k)) = (unat b + nat k) div 256"
proof -
  define s where "s = unat b + nat k"
  have e: "uint b + k = int s" using assms by (simp add: s_def)
  have "unat (word_of_int (int (s mod 256)) :: byte) = s mod 256"
    by (simp add: unat_of_nat)
  then show "unat (word_of_int ((uint b + k) AND 0xFF) :: byte) = (unat b + nat k) mod 256"
    by (simp only: e int_and_255 s_def)
  show "0 \<le> drop_bit 8 (uint b + k)" by (simp only: e drop_bit_eq_div) simp
  have "nat (int s div 2 ^ 8) = s div 256" by (simp add: zdiv_int[symmetric] del: of_nat_numeral)
  then show "nat (drop_bit 8 (uint b + k)) = (unat b + nat k) div 256"
    by (simp only: e drop_bit_eq_div s_def)
qed

lemma split_mod: "(a::nat) < 256 \<Longrightarrow> a + 256 * (t mod p) = (a + 256 * t) mod (256 * p)"
proof -
  assume a: "a < 256"
  have "(a + 256 * t) mod (256 * p) = 256 * ((a + 256 * t) div 256 mod p) + (a + 256 * t) mod 256"
    by (rule mod_mult2_eq)
  also have "(a + 256 * t) div 256 = t" using a by simp
  also have "(a + 256 * t) mod 256 = a" using a by simp
  finally show ?thesis by simp
qed

lemma incrementRev_lev:
  "0 \<le> k \<Longrightarrow> lev (incrementRev bs k) = (lev bs + nat k) mod 256 ^ length bs"
proof (induction bs arbitrary: k)
  case Nil
  then show ?case by simp
next
  case (Cons b bs)
  show ?case
  proof (cases "k > 0")
    case False
    with Cons.prems have "k = 0" by simp
    then show ?thesis using lev_lt[of "b # bs"] by simp
  next
    case True
    define s where "s = unat b + nat k"
    define c where "c = drop_bit 8 (uint b + k)"
    have c0: "0 \<le> c" and cn: "nat c = s div 256"
      using byte_step(2,3)[OF Cons.prems, of b] by (simp_all add: c_def s_def)
    have h: "unat (word_of_int ((uint b + k) AND 0xFF) :: byte) = s mod 256"
      using byte_step(1)[OF Cons.prems, of b] by (simp add: s_def)
    have ih: "lev (incrementRev bs c) = (lev bs + s div 256) mod 256 ^ length bs"
      using Cons.IH[OF c0] cn by simp
    have "lev (incrementRev (b # bs) k) = s mod 256 + 256 * ((lev bs + s div 256) mod 256 ^ length bs)"
      using True h ih by (simp add: c_def)
    also have "\<dots> = (s mod 256 + 256 * (lev bs + s div 256)) mod (256 * 256 ^ length bs)"
      by (rule split_mod) simp
    also have "s mod 256 + 256 * (lev bs + s div 256) = lev (b # bs) + nat k"
      by (simp add: s_def algebra_simps)
    finally show ?thesis by simp
  qed
qed

lemma incrementRev_append:
  "0 \<le> k \<Longrightarrow> lev bs + nat k < 256 ^ length bs \<Longrightarrow> incrementRev (bs @ cs) k = incrementRev bs k @ cs"
proof (induction bs arbitrary: k)
  case Nil
  then have "k = 0" by simp
  then show ?case by (simp add: incrementRev_zero)
next
  case (Cons b bs)
  show ?case
  proof (cases "k > 0")
    case False
    then show ?thesis by simp
  next
    case True
    define s where "s = unat b + nat k"
    define c where "c = drop_bit 8 (uint b + k)"
    have c0: "0 \<le> c" and cn: "nat c = s div 256"
      using byte_step(2,3)[OF Cons.prems(1), of b] by (simp_all add: c_def s_def)
    have "s + 256 * lev bs < 256 * 256 ^ length bs" using Cons.prems(2) by (simp add: s_def)
    then have "(s + 256 * lev bs) div 256 < 256 ^ length bs"
      by (simp add: less_mult_imp_div_less mult.commute)
    then have "lev bs + nat c < 256 ^ length bs" by (simp add: cn add.commute)
    then have "incrementRev (bs @ cs) c = incrementRev bs c @ cs" using Cons.IH[OF c0] by simp
    then show ?thesis using True by (simp add: c_def)
  qed
qed

lemma incrementIP_length: "length (incrementIP ip k) = length ip"
  by (simp add: incrementIP_def incrementRev_length)

lemma incrementIP_ipv: "0 \<le> k \<Longrightarrow> ipv (incrementIP ip k) = (ipv ip + nat k) mod 256 ^ length ip"
  using incrementRev_lev[of k "rev ip"] by (simp add: incrementIP_def ipv_def)

lemma incrementIP_append:
  "0 \<le> k \<Longrightarrow> ipv q + nat k < 256 ^ length q \<Longrightarrow> incrementIP (pre @ q) k = pre @ incrementIP q k"
  using incrementRev_append[of k "rev q" "rev pre"] by (simp add: incrementIP_def ipv_def)

lemma cat8: "(a::nat) < 256 \<Longrightarrow> a + 256 * x = take_bit 8 a OR push_bit 8 x"
proof -
  assume a: "a < 256"
  have t: "take_bit 8 a = a" using a by (simp add: take_bit_nat_eq_self)
  have "take_bit 8 a + push_bit 8 x = take_bit 8 a OR push_bit 8 x"
    by (rule disjunctive_add) (auto simp: bit_simps)
  then show ?thesis by (simp add: t push_bit_eq_mult)
qed

lemma and_lt_256: "(a::nat) < 256 \<Longrightarrow> a AND b < 256"
proof -
  assume "a < 256"
  then have t: "take_bit 8 a = a" by (simp add: take_bit_nat_eq_self)
  have "take_bit 8 a AND b = take_bit 8 (a AND b)"
    by (rule bit_eqI) (auto simp: bit_simps)
  then have "a AND b = take_bit 8 (a AND b)" by (simp only: t)
  moreover have "take_bit 8 (a AND b) < 2 ^ 8" by (rule take_bit_nat_less_exp)
  ultimately show ?thesis by simp
qed

lemma and_cat8: "(a::nat) < 256 \<Longrightarrow> b < 256 \<Longrightarrow> (a + 256 * x) AND (b + 256 * y) = (a AND b) + 256 * (x AND y)"
proof -
  assume a: "a < 256" "b < 256"
  have "(take_bit 8 a OR push_bit 8 x) AND (take_bit 8 b OR push_bit 8 y)
        = take_bit 8 (a AND b) OR push_bit 8 (x AND y)"
    by (rule bit_eqI) (auto simp: bit_simps)
  then show ?thesis
    using cat8[OF a(1), of x] cat8[OF a(2), of y] cat8[OF and_lt_256[OF a(1)], of b "x AND y"]
    by (simp only:)
qed

lemma lev_and: "length xs = length ys \<Longrightarrow> lev (map2 (AND) xs ys) = lev xs AND lev ys"
proof (induction xs ys rule: list_induct2)
  case Nil
  then show ?case by simp
next
  case (Cons x xs y ys)
  show ?case
    using and_cat8[OF unat_byte_lt unat_byte_lt, of x "lev xs" y "lev ys"] Cons.IH
    by (simp add: unsigned_and_eq)
qed

lemma ipv_and: "length xs = length ys \<Longrightarrow> ipv (map2 (AND) xs ys) = ipv xs AND ipv ys"
  using lev_and[of "rev xs" "rev ys"] by (simp add: ipv_def zip_rev rev_map)

lemma and_high_mask:
  fixes v :: nat
  assumes "v < 2 ^ K" "h \<le> K"
  shows "v AND (2 ^ K - 2 ^ h) = v - v mod 2 ^ h"
proof -
  have m: "(2::nat) ^ K - 2 ^ h = push_bit h (mask (K - h))"
  proof -
    have "(2::nat) ^ K = 2 ^ h * 2 ^ (K - h)" using assms(2) by (simp flip: power_add)
    moreover have "push_bit h (mask (K - h)) = (2::nat) ^ h * (2 ^ (K - h) - 1)"
      by (simp add: push_bit_eq_mult mask_eq_exp_minus_1 mult.commute)
    moreover have "(2::nat) ^ h * (2 ^ (K - h) - 1) = 2 ^ h * 2 ^ (K - h) - 2 ^ h"
      by (simp add: diff_mult_distrib2)
    ultimately show ?thesis by (simp only:)
  qed
  have t: "take_bit K v = v" using assms(1) by (simp add: take_bit_nat_eq_self)
  have "v AND push_bit h (mask (K - h)) = push_bit h (drop_bit h (take_bit K v))"
    by (rule bit_eqI) (auto simp: bit_simps)
  also have "\<dots> = push_bit h (drop_bit h v)" by (simp only: t)
  also have "\<dots> = v - v mod 2 ^ h"
    using bits_ident[of h v] by (simp add: take_bit_eq_mod)
  finally show ?thesis by (simp only: m)
qed

lemma unat_not_byte: "unat (NOT m) = 255 - unat (m::byte)"
proof -
  have "NOT m = 255 - m" by (simp add: not_eq_complement)
  moreover have "m \<le> 255" using unat_byte_lt[of m] by (simp add: word_le_nat_alt)
  ultimately show ?thesis by (simp add: unat_sub)
qed

lemma unat_and_le: "unat ((a::byte) AND m) \<le> unat m"
  by (rule word_and_le1 [THEN word_le_nat_alt [THEN iffD1]])

lemma byte_or_not: "unat (((a::byte) AND m) OR NOT m) = unat (a AND m) + (255 - unat m)"
proof -
  have z: "(a AND m) AND NOT m = 0" by (rule bit_eqI) (auto simp: bit_simps)
  have "(a AND m) OR NOT m = (a AND m) + NOT m" using disjunctive_add_eq_or[OF z] by simp
  moreover have "unat (a AND m) + unat (NOT m) < 2 ^ LENGTH(8)"
    using unat_and_le[of a m] unat_byte_lt[of m] by (simp add: unat_not_byte)
  ultimately show ?thesis by (simp add: unat_add_lem[THEN iffD1] unat_not_byte)
qed

lemma lev_or_not:
  "length A = length M \<Longrightarrow>
   lev (map2 (\<lambda>b m. b OR NOT m) (map2 (AND) A M) M) = lev (map2 (AND) A M) + (256 ^ length M - 1 - lev M)"
proof (induction A M rule: list_induct2)
  case Nil
  then show ?case by simp
next
  case (Cons a A m M)
  define u where "u = unat m"
  define L where "L = lev M"
  define P :: nat where "P = 256 ^ length M"
  have b: "u < 256" "L < P" using unat_byte_lt[of m] lev_lt[of M] by (simp_all add: u_def L_def P_def)
  have ar: "(255 - u) + 256 * (P - 1 - L) = 256 * P - 1 - (u + 256 * L)" using b by simp
  have "lev (map2 (\<lambda>b m. b OR NOT m) (map2 (AND) (a # A) (m # M)) (m # M))
        = unat (a AND m) + (255 - u) + 256 * (lev (map2 (AND) A M) + (P - 1 - L))"
    using Cons.IH by (simp add: byte_or_not u_def L_def P_def)
  also have "\<dots> = unat (a AND m) + 256 * lev (map2 (AND) A M) + ((255 - u) + 256 * (P - 1 - L))"
    by (simp add: algebra_simps)
  also have "\<dots> = lev (map2 (AND) (a # A) (m # M)) + (256 ^ length (m # M) - 1 - lev (m # M))"
    by (simp only: ar) (simp add: u_def L_def P_def)
  finally show ?case .
qed

lemma rev_map2: "length xs = length ys \<Longrightarrow> rev (map2 f xs ys) = map2 f (rev xs) (rev ys)"
  by (simp add: rev_map zip_rev)

lemma ipv_or_not:
  assumes "length A = length M"
  shows "ipv (map2 (\<lambda>b m. b OR NOT m) (map2 (AND) A M) M) = ipv (map2 (AND) A M) + (256 ^ length M - 1 - ipv M)"
proof -
  have l: "length (map2 (AND) A M) = length M" using assms by simp
  have r1: "rev (map2 (\<lambda>b m. b OR NOT m) (map2 (AND) A M) M)
            = map2 (\<lambda>b m. b OR NOT m) (rev (map2 (AND) A M)) (rev M)"
    by (rule rev_map2[OF l])
  have r2: "rev (map2 (AND) A M) = map2 (AND) (rev A) (rev M)" by (rule rev_map2[OF assms])
  show ?thesis
    using lev_or_not[of "rev A" "rev M"] assms by (simp only: ipv_def r1 r2 length_rev)
qed

lemma cidr_zero_bytes: "cidrMaskBytes l 0 = replicate l 0"
  by (induction l) simp_all

lemma lev_replicate_zero: "lev (replicate l 0) = 0"
  by (induction l) simp_all

lemma cidr_zero: "lev (rev (cidrMaskBytes l 0)) = 0"
  by (simp add: cidr_zero_bytes lev_replicate_zero)

lemma lt8_cases: "k < 8 \<Longrightarrow> k = 0 \<or> k = 1 \<or> k = 2 \<or> k = 3 \<or> k = 4 \<or> k = 5 \<or> k = 6 \<or> k = (7::nat)"
  by arith

lemma partial_byte: "k < 8 \<Longrightarrow> unat (NOT (drop_bit k (0xff :: byte))) = 256 - 2 ^ (8 - k)"
proof -
  assume "k < 8"
  then have "k = 0 \<or> k = 1 \<or> k = 2 \<or> k = 3 \<or> k = 4 \<or> k = 5 \<or> k = 6 \<or> k = 7" by (rule lt8_cases)
  then show ?thesis
    by (elim disjE) (simp_all add: unat_not_byte drop_bit_eq_div)
qed

lemma ipv_Cons: "ipv (b # bs) = unat b * 256 ^ length bs + ipv bs"
proof -
  have "\<And>c. lev (xs @ [c]) = lev xs + unat c * 256 ^ length xs" for xs
    by (induction xs) (simp_all add: algebra_simps)
  then show ?thesis by (simp add: ipv_def)
qed

lemma ipv_cidr: "k \<le> 8 * l \<Longrightarrow> ipv (cidrMaskBytes l k) = 256 ^ l - 2 ^ (8 * l - k)"
proof (induction l arbitrary: k)
  case 0
  then show ?case by (simp add: ipv_def)
next
  case (Suc l)
  have len: "length (cidrMaskBytes l j) = l" for j
    by (induction l arbitrary: j) simp_all
  have p: "(256::nat) ^ l = 2 ^ (8 * l)" by (simp add: power_mult)
  show ?case
  proof (cases "8 \<le> k")
    case True
    then have kl: "k - 8 \<le> 8 * l" using Suc.prems by simp
    have e: "8 * Suc l - k = 8 * l - (k - 8)" using True by simp
    have "(2::nat) ^ (8 * l - (k - 8)) \<le> 2 ^ (8 * l)" by (rule power_increasing) simp_all
    then have le: "(2::nat) ^ (8 * l - (k - 8)) \<le> 256 ^ l" by (simp only: p)
    have "ipv (cidrMaskBytes (Suc l) k) = 255 * 256 ^ l + (256 ^ l - 2 ^ (8 * l - (k - 8)))"
      using True Suc.IH[OF kl] by (simp add: ipv_Cons len)
    also have "\<dots> = 256 * 256 ^ l - 2 ^ (8 * l - (k - 8))" using le by simp
    finally show ?thesis by (simp only: e power_Suc)
  next
    case False
    then have k8: "k < 8" by simp
    have z: "ipv (cidrMaskBytes l 0) = 0" using cidr_zero[of l] by (simp add: ipv_def)
    have e: "8 * Suc l - k = (8 - k) + 8 * l" using k8 by simp
    have "ipv (cidrMaskBytes (Suc l) k) = (256 - 2 ^ (8 - k)) * 256 ^ l"
      using False z by (simp add: ipv_Cons len partial_byte[OF k8])
    also have "\<dots> = 256 * 256 ^ l - 2 ^ (8 - k) * 2 ^ (8 * l)"
      by (simp only: diff_mult_distrib p)
    finally show ?thesis by (simp only: e power_Suc power_add)
  qed
qed

lemma leadingOnes_partial: "k < 8 \<Longrightarrow> leadingOnes (NOT (drop_bit k (0xff :: byte))) = (k, 0)"
proof -
  assume "k < 8"
  then have "k = 0 \<or> k = 1 \<or> k = 2 \<or> k = 3 \<or> k = 4 \<or> k = 5 \<or> k = 6 \<or> k = 7" by (rule lt8_cases)
  then show ?thesis
    by (elim disjE) (simp_all add: leadingOnes.simps drop_bit_eq_div)
qed

lemma partial_not_ff: "k < 8 \<Longrightarrow> NOT (drop_bit k (0xff :: byte)) \<noteq> 0xff"
proof
  assume k: "k < 8" and e: "NOT (drop_bit k (0xff :: byte)) = 0xff"
  have "unat (NOT (drop_bit k (0xff :: byte))) = 256 - 2 ^ (8 - k)" by (rule partial_byte[OF k])
  then have "(255::nat) = 256 - 2 ^ (8 - k)" by (simp add: e)
  moreover have "(2::nat) ^ (8 - k) \<ge> 2 ^ 1" using k by (intro power_increasing) simp_all
  ultimately show False by simp
qed

lemma cidr_length: "length (cidrMaskBytes l j) = l"
  by (induction l arbitrary: j) simp_all

lemma simpleMaskLength_cidr: "k \<le> 8 * l \<Longrightarrow> simpleMaskLength (cidrMaskBytes l k) = int k"
proof (induction l arbitrary: k)
  case 0
  then show ?case by simp
next
  case (Suc l)
  show ?case
  proof (cases "8 \<le> k")
    case True
    then have kl: "k - 8 \<le> 8 * l" using Suc.prems by simp
    show ?thesis using True Suc.IH[OF kl] by simp
  next
    case False
    then have k8: "k < 8" by simp
    show ?thesis
      using False partial_not_ff[OF k8] leadingOnes_partial[OF k8]
      by (simp add: cidr_zero_bytes list_all_length)
  qed
qed

lemma Size_mask_CIDRMask:
  "0 \<le> n \<Longrightarrow> n \<le> bits \<Longrightarrow> bits = 32 \<or> bits = 128 \<Longrightarrow> Size_mask (CIDRMask n bits) = (n, bits)"
  using simpleMaskLength_cidr[of "nat n" "nat (bits div 8)"]
  by (auto simp: Size_mask_def CIDRMask_def cidr_length Let_def)

lemma CIDRMask_length:
  "0 \<le> n \<Longrightarrow> n \<le> bits \<Longrightarrow> bits = 32 \<or> bits = 128 \<Longrightarrow> length (CIDRMask n bits) = nat (bits div 8)"
  by (auto simp: CIDRMask_def cidr_length)

lemma ipv_CIDRMask32:
  "0 \<le> n \<Longrightarrow> n \<le> 32 \<Longrightarrow> ipv (CIDRMask n 32) = 256 ^ 4 - 2 ^ (32 - nat n)"
  using ipv_cidr[of "nat n" 4] by (simp add: CIDRMask_def)

lemma parseIPv4Fields_length:
  "parseIPv4Fields prev v dl flds s = Some r \<Longrightarrow> length flds \<le> 3 \<Longrightarrow> length r = 4"
proof (induction s arbitrary: prev v dl flds)
  case Nil
  then show ?case by (auto simp: parseIPv4Fields.simps split: if_splits)
next
  case (Cons c cs)
  show ?case
  proof (cases "isDigit c")
    case True
    then have "parseIPv4Fields (Some c) (v * 10 + digitVal c) (Suc dl) flds cs = Some r"
      using Cons.prems(1) by (simp add: parseIPv4Fields.simps split: if_splits)
    then show ?thesis using Cons.IH Cons.prems(2) by blast
  next
    case False
    then have a: "parseIPv4Fields (Some c) 0 0 (flds @ [of_nat v]) cs = Some r" and b: "length flds \<noteq> 3"
      using Cons.prems(1) by (simp_all add: parseIPv4Fields.simps split: if_splits)
    have "length (flds @ [of_nat v :: byte]) \<le> 3" using b Cons.prems(2) by simp
    then show ?thesis using Cons.IH[OF a] by blast
  qed
qed

lemma parseIPv4_length: "parseIPv4 s = Some r \<Longrightarrow> length r = 4"
  using parseIPv4Fields_length[of None 0 0 "[]" s r] by (simp add: parseIPv4_def)

lemma parseIPv6Loop_length:
  "parseIPv6Loop ip e s = Some (ip', e', rest) \<Longrightarrow> length ip \<le> 16 \<Longrightarrow> even (length ip) \<Longrightarrow> length ip' \<le> 16"
proof (induction ip e s arbitrary: ip' e' rest rule: parseIPv6Loop.induct)
  case (1 ip ellipsis s)
  have lt: "length ip < 16 \<Longrightarrow> length ip + 2 \<le> 16" using "1.prems"(3) by presburger
  show ?case
  proof (cases "length ip \<ge> 16")
    case True
    then show ?thesis using "1.prems" by (simp add: parseIPv6Loop.simps)
  next
    case False
    then obtain off acc rst where sh: "scanHex 0 0 s = Some (off, acc, rst)"
      using "1.prems"(1) by (subst (asm) parseIPv6Loop.simps) (auto split: option.splits)
    define ip2 where "ip2 = ip @ [of_nat (acc div 256), of_nat acc :: byte]"
    have l2: "length ip2 \<le> 16" "even (length ip2)" using lt False "1.prems"(3) by (simp_all add: ip2_def)
    have off: "off \<noteq> 0" using "1.prems"(1) False sh
      by (subst (asm) parseIPv6Loop.simps) (auto split: if_splits)
    show ?thesis
    proof (cases "rst \<noteq> [] \<and> hd rst = CHR ''.''")
      case True
      then obtain v4 where "parseIPv4 s = Some v4" "ip' = ip @ v4" "length ip + 4 \<le> 16"
        using "1.prems"(1) False sh off
        by (subst (asm) parseIPv6Loop.simps) (auto split: if_splits option.splits)
      then show ?thesis using parseIPv4_length by auto
    next
      case dot: False
      show ?thesis
      proof (cases "rst = []")
        case True
        then have "ip' = ip2" using "1.prems"(1) False sh off
          by (subst (asm) parseIPv6Loop.simps) (auto simp: ip2_def split: if_splits)
        then show ?thesis using l2 by simp
      next
        case ne: False
        then have c: "hd rst = CHR '':''" "length rst \<noteq> 1" using "1.prems"(1) False sh off dot
          by (subst (asm) parseIPv6Loop.simps, auto split: if_splits)+
        show ?thesis
        proof (cases "hd (tl rst) = CHR '':''")
          case True
          then have en: "ellipsis = None" using "1.prems"(1) False sh off dot ne c
            by (subst (asm) parseIPv6Loop.simps) (auto split: if_splits)
          show ?thesis
          proof (cases "tl (tl rst) = []")
            case True
            then have "ip' = ip2" using "1.prems"(1) False sh off dot ne c \<open>hd (tl rst) = CHR '':''\<close> en
              by (subst (asm) parseIPv6Loop.simps) (auto simp: ip2_def split: if_splits)
            then show ?thesis using l2 by simp
          next
            case t: False
            have r: "parseIPv6Loop ip2 (Some (length ip + 2)) (tl (tl rst)) = Some (ip', e', rest)"
              using "1.prems"(1) False sh off dot ne c \<open>hd (tl rst) = CHR '':''\<close> en t
              by (subst (asm) parseIPv6Loop.simps) (auto simp: ip2_def split: if_splits)
            show ?thesis
              using "1.IH"(1)[of "(off, acc, rst)" off "(acc, rst)" acc rst ip' e' rest]
                r l2 False sh off dot ne c en t True by (simp add: ip2_def)
          qed
        next
          case nc: False
          have r: "parseIPv6Loop ip2 ellipsis (tl rst) = Some (ip', e', rest)"
            using "1.prems"(1) False sh off dot ne c nc
            by (subst (asm) parseIPv6Loop.simps) (auto simp: ip2_def split: if_splits)
          show ?thesis
            using "1.IH"(2)[of "(off, acc, rst)" off "(acc, rst)" acc rst ip' e' rest]
              r l2 False sh off dot ne c nc by (simp add: ip2_def)
        qed
      qed
    qed
  qed
qed

lemma parseIPv6Loop_length0: "parseIPv6Loop [] e s = Some (ip', e', rest) \<Longrightarrow> length ip' \<le> 16"
  using parseIPv6Loop_length[of "[]" e s ip' e' rest] by simp

lemma expand_length: "length ip < 16 \<Longrightarrow> length (take e ip @ replicate (16 - length ip) (0::byte) @ drop e ip) = 16"
proof -
  assume a: "length ip < 16"
  have "length (take e ip @ replicate (16 - length ip) (0::byte) @ drop e ip)
        = length (take e ip @ drop e ip) + (16 - length ip)" by simp
  then show ?thesis using a by (simp only: append_take_drop_id)
qed

lemma finish6_length:
  "(if rest \<noteq> [] then None
    else if length ip < 16 then
      (case e of None \<Rightarrow> None
       | Some e \<Rightarrow> Some (take e ip @ replicate (16 - length ip) (0::byte) @ drop e ip))
    else if e \<noteq> None then None else Some ip) = Some r \<Longrightarrow> length ip \<le> 16 \<Longrightarrow> length r = 16"
  by (auto split: if_splits option.splits simp: expand_length simp del: length_append)

lemma parseIPv6_length: "parseIPv6 s = Some r \<Longrightarrow> length r = 16"
proof -
  assume a: "parseIPv6 s = Some r"
  define lead where "lead = (length s \<ge> 2 \<and> s ! 0 = CHR '':'' \<and> s ! 1 = CHR '':'')"
  define s1 where "s1 = (if lead then drop 2 s else s)"
  define e0 where "e0 = (if lead then Some (0::nat) else None)"
  have u: "parseIPv6 s =
     (if lead \<and> s1 = [] then Some (replicate 16 0)
      else case parseIPv6Loop [] e0 s1 of
        None \<Rightarrow> None
      | Some (ip, e, rest) \<Rightarrow>
          (if rest \<noteq> [] then None
           else if length ip < 16 then
             (case e of None \<Rightarrow> None
              | Some e \<Rightarrow> Some (take e ip @ replicate (16 - length ip) 0 @ drop e ip))
           else if e \<noteq> None then None else Some ip))"
    by (simp only: parseIPv6_def Let_def lead_def s1_def e0_def)
  show ?thesis
  proof (cases "lead \<and> s1 = []")
    case True
    then have "r = replicate 16 0" using a by (simp only: u if_True) simp
    then show ?thesis by simp
  next
    case False
    show ?thesis
    proof (cases "parseIPv6Loop [] e0 s1")
      case None
      then show ?thesis using a False by (simp only: u if_False option.case) simp
    next
      case (Some t)
      obtain ip e rest where t: "t = (ip, e, rest)" by (cases t) auto
      have le: "length ip \<le> 16" using parseIPv6Loop_length0[of e0 s1 ip e rest] Some t by simp
      show ?thesis
        using a False le
        by (simp only: u Some t if_False option.case prod.case) (rule finish6_length)
    qed
  qed
qed

lemma parseAddr_length: "parseAddr s = Some (is4, a) \<Longrightarrow> length a = 16"
  using parseIPv4_length parseIPv6_length
  by (auto simp: parseAddr_def v4InV6Prefix_def split: if_splits option.splits)

lemma parseAddr_is4: "parseAddr s = Some (True, a) \<Longrightarrow> take 12 a = v4InV6Prefix"
  by (auto simp: parseAddr_def v4InV6Prefix_def split: if_splits option.splits)

definition shape :: "byte list \<Rightarrow> byte list \<Rightarrow> nat \<Rightarrow> IPNet \<Rightarrow> bool" where
  "shape P a4 k4 n \<longleftrightarrow>
     (P = [] \<or> P = v4InV6Prefix) \<and> length a4 = 4 \<and> k4 \<le> 29 \<and>
     IP n = P @ map2 (AND) a4 (cidrMaskBytes 4 k4) \<and>
     Mask n = replicate (length P) 0xff @ cidrMaskBytes 4 k4"

lemma cidr_split: "8 * j \<le> k \<Longrightarrow> cidrMaskBytes (j + l) k = replicate j 0xff @ cidrMaskBytes l (k - 8 * j)"
proof (induction j arbitrary: k)
  case 0
  then show ?case by simp
next
  case (Suc j)
  have a: "8 \<le> k" "8 * j \<le> k - 8" using Suc.prems by simp_all
  have e: "k - 8 - 8 * j = k - 8 * Suc j" by simp
  show ?case using a Suc.IH[OF a(2)] by (simp add: e)
qed

lemma cidr_ff: "i < l \<Longrightarrow> cidrMaskBytes l k ! i = 0xff \<Longrightarrow> 8 * (i + 1) \<le> k"
proof (induction l arbitrary: k i)
  case 0
  then show ?case by simp
next
  case (Suc l)
  show ?case
  proof (cases "8 \<le> k")
    case True
    show ?thesis
    proof (cases i)
      case 0
      then show ?thesis using True by simp
    next
      case (Suc i')
      then have "cidrMaskBytes l (k - 8) ! i' = 0xff" "i' < l" using Suc.prems True by simp_all
      then have "8 * (i' + 1) \<le> k - 8" using Suc.IH by blast
      then show ?thesis using Suc True by simp
    qed
  next
    case False
    then have k8: "k < 8" by simp
    show ?thesis
    proof (cases i)
      case 0
      then show ?thesis using Suc.prems False partial_not_ff[OF k8] by simp
    next
      case (Suc i')
      then have "replicate l (0::byte) ! i' = 0xff" "i' < l"
        using Suc.prems False by (simp_all add: cidr_zero_bytes)
      then show ?thesis by simp
    qed
  qed
qed

lemma byte_and_ff: "(x::byte) AND 0xff = x"
proof -
  have f: "(0xff::byte) = - 1" by simp
  show ?thesis unfolding f by simp
qed

lemma byte_or_not_ff: "(x::byte) OR NOT 0xff = x"
proof -
  have f: "(0xff::byte) = - 1" by simp
  show ?thesis unfolding f by simp
qed

lemma and_ff_right: "(a::byte) AND m = 0xff \<Longrightarrow> m = 0xff"
proof -
  assume a: "a AND m = 0xff"
  have f: "(0xff::byte) = - 1" by simp
  have "m AND 0xff = m AND (a AND m)" by (simp only: a)
  also have "\<dots> = a AND m" by (simp add: ac_simps)
  finally have "m AND 0xff = 0xff" using a by simp
  then show ?thesis by (simp only: byte_and_ff)
qed

lemma map2_and_ff: "map2 (AND) xs (replicate (length xs) (0xff::byte)) = xs"
proof (induction xs)
  case Nil
  then show ?case by simp
next
  case (Cons x xs)
  then show ?case by (simp add: byte_and_ff)
qed

lemma byte_m256: "(- 256 :: byte) = 0"
  by simp

lemma map2_or_not_ff: "map2 (\<lambda>b m. b OR NOT m) xs (replicate (length xs) (0xff::byte)) = xs"
proof (induction xs)
  case Nil
  then show ?case by simp
next
  case (Cons x xs)
  then show ?case by (simp add: byte_m256)
qed

lemma map2_and_idem: "length xs = length ms \<Longrightarrow> map2 (AND) (map2 (AND) xs ms) ms = map2 (AND) xs (ms :: byte list)"
  by (induction xs ms rule: list_induct2) simp_all

lemma CIDRMask_32: "k \<le> 32 \<Longrightarrow> CIDRMask (int k) 32 = cidrMaskBytes 4 k"
  by (simp add: CIDRMask_def)

lemma CIDRMask_128: "k \<le> 128 \<Longrightarrow> CIDRMask (int k) 128 = cidrMaskBytes 16 k"
  by (simp add: CIDRMask_def)

lemma Size_cidr4: "k \<le> 32 \<Longrightarrow> Size_mask (cidrMaskBytes 4 k) = (int k, 32)"
  using simpleMaskLength_cidr[of k 4] by (simp add: Size_mask_def Let_def cidr_length)

lemma Size_cidr16: "k \<le> 128 \<Longrightarrow> Size_mask (cidrMaskBytes 16 k) = (int k, 128)"
  using simpleMaskLength_cidr[of k 16] by (simp add: Size_mask_def Let_def cidr_length)

lemma ParseCIDR_cases:
  assumes "ParseCIDR s = Some n"
  shows "(\<exists>a16 k. length a16 = 16 \<and> take 12 a16 = v4InV6Prefix \<and> k \<le> 32 \<and>
            n = \<lparr>IP = Mask_ip a16 (cidrMaskBytes 4 k), Mask = cidrMaskBytes 4 k\<rparr>) \<or>
         (\<exists>a16 k. length a16 = 16 \<and> k \<le> 128 \<and>
            n = \<lparr>IP = Mask_ip a16 (cidrMaskBytes 16 k), Mask = cidrMaskBytes 16 k\<rparr>)"
proof -
  define addr where "addr = takeWhile (\<lambda>c. c \<noteq> CHR ''/'') s"
  define mask where "mask = tl (dropWhile (\<lambda>c. c \<noteq> CHR ''/'') s)"
  obtain is4 a16 where pa: "parseAddr addr = Some (is4, a16)"
    using assms by (auto simp: ParseCIDR_def Let_def addr_def split: if_splits option.splits)
  obtain k i ok where dt: "dtoi mask = (k, i, ok)" by (cases "dtoi mask") auto
  define bitLen :: int where "bitLen = (if is4 then 32 else 128)"
  have r: "int k \<le> bitLen" "n = \<lparr>IP = Mask_ip a16 (CIDRMask (int k) bitLen), Mask = CIDRMask (int k) bitLen\<rparr>"
    using assms pa dt
    by (auto simp: ParseCIDR_def Let_def addr_def mask_def bitLen_def split: if_splits option.splits)
  have len: "length a16 = 16" using parseAddr_length[OF pa] .
  show ?thesis
  proof (cases is4)
    case True
    then have "k \<le> 32" using r(1) by (simp add: bitLen_def)
    moreover have "take 12 a16 = v4InV6Prefix" using parseAddr_is4 pa True by simp
    ultimately show ?thesis using r(2) len True by (auto simp: bitLen_def CIDRMask_32)
  next
    case False
    then have "k \<le> 128" using r(1) by (simp add: bitLen_def)
    then show ?thesis using r(2) len False by (auto simp: bitLen_def CIDRMask_128)
  qed
qed

lemma To4_16: "length ip = 16 \<Longrightarrow> To4 ip \<noteq> None \<Longrightarrow> take 12 ip = v4InV6Prefix"
  by (simp add: To4_def split: if_splits)

lemma ParseCIDR_shape:
  assumes p: "ParseCIDR s = Some n" and t: "To4 (IP n) \<noteq> None"
    and sz: "Size_mask (Mask n) = (ones, bits)" and small: "\<not> bits - ones < 3"
  shows "\<exists>P a4 k4. shape P a4 k4 n \<and> bits - ones = 32 - int k4"
  using ParseCIDR_cases[OF p]
proof (elim disjE exE conjE)
  fix a16 k
  assume a: "length a16 = 16" "take 12 a16 = v4InV6Prefix" "k \<le> 32"
    and n: "n = \<lparr>IP = Mask_ip a16 (cidrMaskBytes 4 k), Mask = cidrMaskBytes 4 k\<rparr>"
  have "(ones, bits) = (int k, 32)" using sz Size_cidr4[OF a(3)] by (simp add: n)
  then have k: "k \<le> 29" "bits - ones = 32 - int k" using small by auto
  have "Mask_ip a16 (cidrMaskBytes 4 k) = map2 (AND) (drop 12 a16) (cidrMaskBytes 4 k)"
    using a by (simp add: Mask_ip_def Let_def cidr_length)
  then have "shape [] (drop 12 a16) k n" using a k by (simp add: shape_def n)
  then show ?thesis using k(2) by blast
next
  fix a16 k
  assume a: "length a16 = 16" "k \<le> 128"
    and n: "n = \<lparr>IP = Mask_ip a16 (cidrMaskBytes 16 k), Mask = cidrMaskBytes 16 k\<rparr>"
  define m where "m = cidrMaskBytes 16 k"
  have lm: "length m = 16" by (simp add: m_def cidr_length)
  have "(ones, bits) = (int k, 128)" using sz Size_cidr16[OF a(2)] by (simp add: n)
  then have k: "k \<le> 125" "bits - ones = 128 - int k" using small by auto
  have N: "IP n = map2 (AND) a16 m" using a lm by (simp add: n Mask_ip_def Let_def m_def[symmetric])
  have pre: "take 12 (map2 (AND) a16 m) = v4InV6Prefix"
    using To4_16[of "IP n"] t N a lm by simp
  have "map2 (AND) a16 m ! 11 = 0xff"
  proof -
    have "take 12 (map2 (AND) a16 m) ! 11 = v4InV6Prefix ! 11" by (simp only: pre)
    then show ?thesis by (simp add: v4InV6Prefix_def)
  qed
  then have "a16 ! 11 AND m ! 11 = 0xff" using a lm by simp
  then have "m ! 11 = 0xff" by (rule and_ff_right)
  then have k96: "96 \<le> k" using cidr_ff[of 11 16 k] by (simp add: m_def)
  define k4 where "k4 = k - 96"
  have ms: "m = replicate 12 0xff @ cidrMaskBytes 4 k4"
    using cidr_split[of 12 k 4] k96 by (simp add: m_def k4_def)
  have as: "a16 = take 12 a16 @ drop 12 a16" by simp
  have "map2 (AND) a16 m = map2 (AND) (take 12 a16 @ drop 12 a16) (replicate 12 0xff @ cidrMaskBytes 4 k4)"
    using as ms by simp
  also have "\<dots> = map2 (AND) (take 12 a16) (replicate 12 0xff) @ map2 (AND) (drop 12 a16) (cidrMaskBytes 4 k4)"
    using a by (simp add: zip_append del: append_take_drop_id)
  also have "map2 (AND) (take 12 a16) (replicate 12 0xff) = take 12 a16"
    using map2_and_ff[of "take 12 a16"] a by simp
  finally have sp: "map2 (AND) a16 m = take 12 a16 @ map2 (AND) (drop 12 a16) (cidrMaskBytes 4 k4)" .
  have "take 12 (map2 (AND) a16 m) = take 12 a16" using a by (subst sp) simp
  then have t12: "take 12 a16 = v4InV6Prefix" using pre by simp
  have lp: "length v4InV6Prefix = 12" by (simp add: v4InV6Prefix_def)
  have k4le: "k4 \<le> 29" using k(1) by (simp add: k4_def)
  have P: "IP n = v4InV6Prefix @ map2 (AND) (drop 12 a16) (cidrMaskBytes 4 k4)"
    using N sp t12 by simp
  have M: "Mask n = replicate (length v4InV6Prefix) 0xff @ cidrMaskBytes 4 k4"
    using ms by (simp add: n lp m_def)
  have l4: "length (drop 12 a16) = 4" using a by simp
  have "shape v4InV6Prefix (drop 12 a16) k4 n"
    unfolding shape_def using P M k4le l4 by blast
  moreover have "bits - ones = 32 - int k4" using k k96 by (simp add: k4_def)
  ultimately show ?thesis by blast
qed

definition net4 :: "byte list \<Rightarrow> nat \<Rightarrow> byte list" where
  "net4 a4 k4 = map2 (AND) a4 (cidrMaskBytes 4 k4)"

definition bcast4 :: "byte list \<Rightarrow> nat \<Rightarrow> byte list" where
  "bcast4 a4 k4 = map2 (\<lambda>b m. b OR NOT m) (net4 a4 k4) (cidrMaskBytes 4 k4)"

lemma pre_len: "length v4InV6Prefix = 12"
  by (simp add: v4InV6Prefix_def)

lemma net4_length: "length a4 = 4 \<Longrightarrow> length (net4 a4 k4) = 4"
  by (simp add: net4_def cidr_length)

lemma bcast4_length: "length a4 = 4 \<Longrightarrow> length (bcast4 a4 k4) = 4"
  by (simp add: bcast4_def net4_def cidr_length)

lemma To4_pre: "P = [] \<or> P = v4InV6Prefix \<Longrightarrow> length x4 = 4 \<Longrightarrow> To4 (P @ x4) = Some x4"
  by (auto simp: To4_def pre_len)

lemma String_pre: "P = [] \<or> P = v4InV6Prefix \<Longrightarrow> length x4 = 4 \<Longrightarrow> String_ip (P @ x4) = dotted x4"
  using To4_pre[of P x4] by (auto simp: String_ip_def pre_len)

lemma Equal_pre:
  "P = [] \<or> P = v4InV6Prefix \<Longrightarrow> length x4 = 4 \<Longrightarrow> length y4 = 4 \<Longrightarrow>
   Equal (P @ x4) (v4InV6Prefix @ y4) \<longleftrightarrow> x4 = y4"
  by (auto simp: Equal_def pre_len)

lemma incrementIP_pre:
  assumes "0 \<le> k" "ipv x4 + nat k < 256 ^ 4" "length x4 = 4"
  shows "incrementIP (P @ x4) k = P @ incrementIP x4 k"
    and "ipv (incrementIP x4 k) = ipv x4 + nat k"
    and "length (incrementIP x4 k) = 4"
proof -
  show "incrementIP (P @ x4) k = P @ incrementIP x4 k"
    using incrementIP_append[of k x4 P] assms by simp
  show "ipv (incrementIP x4 k) = ipv x4 + nat k"
    using incrementIP_ipv[OF assms(1), of x4] assms(2,3) by simp
  show "length (incrementIP x4 k) = 4" using assms(3) by (simp add: incrementIP_length)
qed

lemma ipv_m4: "k4 \<le> 32 \<Longrightarrow> ipv (cidrMaskBytes 4 k4) = 2 ^ 32 - 2 ^ (32 - k4)"
  using ipv_cidr[of k4 4] by simp

lemma ipv_lt32: "length x4 = 4 \<Longrightarrow> ipv x4 < 2 ^ 32"
  using ipv_lt[of x4] by simp

lemma ipv_net4:
  assumes "length a4 = 4" "k4 \<le> 32"
  shows "ipv (net4 a4 k4) = ipv a4 - ipv a4 mod 2 ^ (32 - k4)"
proof -
  have "ipv (net4 a4 k4) = ipv a4 AND (2 ^ 32 - 2 ^ (32 - k4))"
    using ipv_and[of a4 "cidrMaskBytes 4 k4"] assms by (simp add: net4_def cidr_length ipv_m4)
  also have "\<dots> = ipv a4 - ipv a4 mod 2 ^ (32 - k4)"
    by (rule and_high_mask[OF ipv_lt32[OF assms(1)]]) simp
  finally show ?thesis .
qed

lemma ipv_bcast4:
  assumes "length a4 = 4" "k4 \<le> 32"
  shows "ipv (bcast4 a4 k4) = ipv (net4 a4 k4) + 2 ^ (32 - k4) - 1"
proof -
  have l: "length a4 = length (cidrMaskBytes 4 k4)" using assms by (simp add: cidr_length)
  have le: "(2::nat) ^ (32 - k4) \<le> 2 ^ 32" by (rule power_increasing) simp_all
  have "ipv (bcast4 a4 k4) = ipv (net4 a4 k4) + (256 ^ 4 - 1 - ipv (cidrMaskBytes 4 k4))"
    using ipv_or_not[OF l] by (simp add: bcast4_def net4_def cidr_length)
  also have "256 ^ 4 - 1 - ipv (cidrMaskBytes 4 k4) = 2 ^ (32 - k4) - 1"
    using le by (simp add: ipv_m4[OF assms(2)])
  finally show ?thesis by simp
qed

lemma cidr4_unfold: "cidrMaskBytes 4 n = cidrMaskBytes (Suc (Suc (Suc (Suc 0)))) n"
  by (simp add: numeral_eq_Suc)

lemma ex_mask: "CIDRMask 29 32 = [255, 255, 255, 248]"
  by (simp add: CIDRMask_def cidr4_unfold drop_bit_eq_div)

lemma ex_parse4: "parseIPv4 ''10.0.0.0'' = Some [10, 0, 0, 0]"
  by (simp add: parseIPv4_def parseIPv4Fields.simps isDigit_def digitVal_def)

lemma ex_addr: "parseAddr ''10.0.0.0'' = Some (True, v4InV6Prefix @ [10, 0, 0, 0])"
  by (simp add: parseAddr_def ex_parse4)

lemma ex_dtoi: "dtoi ''29'' = (29, 2, True)"
  by (simp add: dtoi_def isDigit_def digitVal_def)

lemma ex_cidr: "ParseCIDR ''10.0.0.0/29'' = Some \<lparr>IP = [10, 0, 0, 0], Mask = [255, 255, 255, 248]\<rparr>"
  by (simp add: ParseCIDR_def ex_addr ex_dtoi ex_mask Mask_ip_def v4InV6Prefix_def Let_def)

definition pool29 :: IPPool where
  "pool29 = \<lparr>network = ''10.0.0.0/29'', ipNet = \<lparr>IP = [10, 0, 0, 0], Mask = [255, 255, 255, 248]\<rparr>,
     serverIP = ''10.0.0.1'', allocated = fmupd ''10.0.0.1'' True fmempty,
     networkAddress = ''10.0.0.0'', broadcastAddress = ''10.0.0.7'', totalHosts = 6\<rparr>"

lemma ex_size: "Size_mask [255, 255, 255, 248] = (29, 32)"
  by (simp add: Size_mask_def Let_def leadingOnes.simps)

lemma ex_string: "b < 10 \<Longrightarrow> String_ip [10, 0, 0, of_nat b] = ''10.0.0.'' @ [digitChar b]"
  by (simp add: String_ip_def To4_def dotted_def uitoa_2 uitoa_1 digitChar_def unat_of_nat)

lemma not248: "NOT (248::byte) = 7"
  by (simp add: word_unat_eq_iff unat_not_byte)

lemma ex_bcast: "map2 (\<lambda>b m. b OR NOT m) [10, 0, 0, 0] [255, 255, 255, 248] = [10, 0, 0, 7::byte]"
proof -
  have f1: "(10::byte) OR NOT 255 = 10" by (rule byte_or_not_ff)
  have f2: "(0::byte) OR NOT 255 = 0" by (rule byte_or_not_ff)
  have f3: "(0::byte) OR NOT 248 = 7" by (simp only: not248 or.left_neutral)
  show ?thesis
    by (simp only: zip_Cons_Cons zip_Nil list.map case_prod_conv f1 f2 f3)
qed

lemma ex_neg: "(- 246 :: byte) = 10" "(- 256 :: byte) = 0" "(- 249 :: byte) = 7"
  by simp_all

lemma ex_new: "NewIPPool ''10.0.0.0/29'' = Inr pool29"
  using ex_string[of 0] ex_string[of 7] ex_string[of 1]
  by (simp add: NewIPPool_def ex_cidr To4_def ex_size Mask_ip_def Let_def incrementIP_def pool29_def digitChar_def ex_neg
)

fun allocateN :: "nat \<Rightarrow> IPPool \<Rightarrow> ((PoolError + string) list \<times> IPPool) option" where
  "allocateN 0 p = Some ([], p)"
| "allocateN (Suc n) p =
     (case AllocateIP p of
        None \<Rightarrow> None
      | Some (r, p') \<Rightarrow>
          (case allocateN n p' of None \<Rightarrow> None | Some (rs, p'') \<Rightarrow> Some (r # rs, p'')))"

lemma scan_end: "Equal cur b \<Longrightarrow> allocateScan al cur b = Some (Inl NoAvailableIP, al)"
  by (subst allocateScan.simps) simp

lemma scan_hit:
  "\<not> Equal cur b \<Longrightarrow> \<not> isSet al (String_ip cur) \<Longrightarrow>
   allocateScan al cur b = Some (Inr (String_ip cur), fmupd (String_ip cur) True al)"
  by (subst allocateScan.simps) simp

lemma scan_skip:
  "\<not> Equal cur b \<Longrightarrow> isSet al (String_ip cur) \<Longrightarrow>
   allocateScan al cur b = allocateScan al (incrementIP cur 1) b"
  by (subst allocateScan.simps) simp

lemma ex_strs: "String_ip [10, 0, 0, 2] = ''10.0.0.2''" "String_ip [10, 0, 0, 3] = ''10.0.0.3''" "String_ip [10, 0, 0, 4] = ''10.0.0.4''" "String_ip [10, 0, 0, 5] = ''10.0.0.5''" "String_ip [10, 0, 0, 6] = ''10.0.0.6''"
  by (simp_all add: String_ip_def To4_def dotted_def uitoa_2 uitoa_1 digitChar_def)

lemma ex_incs: "incrementIP [10, 0, 0, 2] 1 = [10, 0, 0, 3]" "incrementIP [10, 0, 0, 3] 1 = [10, 0, 0, 4]" "incrementIP [10, 0, 0, 4] 1 = [10, 0, 0, 5]" "incrementIP [10, 0, 0, 5] 1 = [10, 0, 0, 6]" "incrementIP [10, 0, 0, 6] 1 = [10, 0, 0, 7]" "incrementIP [10, 0, 0, 0] 2 = [10, 0, 0, 2]"
  by (simp_all add: incrementIP_def)

lemma ex_neqs: "\<not> Equal [10, 0, 0, 2] (v4InV6Prefix @ [10, 0, 0, 7])" "\<not> Equal [10, 0, 0, 3] (v4InV6Prefix @ [10, 0, 0, 7])" "\<not> Equal [10, 0, 0, 4] (v4InV6Prefix @ [10, 0, 0, 7])" "\<not> Equal [10, 0, 0, 5] (v4InV6Prefix @ [10, 0, 0, 7])" "\<not> Equal [10, 0, 0, 6] (v4InV6Prefix @ [10, 0, 0, 7])" "Equal [10, 0, 0, 7] (v4InV6Prefix @ [10, 0, 0, 7])"
  by (simp_all add: Equal_def v4InV6Prefix_def)

lemma ex_parse7: "ParseIP ''10.0.0.7'' = Some (v4InV6Prefix @ [10, 0, 0, 7])"
  using ParseIP_dotted[of "[10, 0, 0, 7]"] ex_string[of 7] 
  by (simp add: String_ip_def To4_def digitChar_def)

lemma ex_AllocateIP:
  "AllocateIP (pool29\<lparr>allocated := m\<rparr>) =
     map_option (\<lambda>(r, al). (r, pool29\<lparr>allocated := al\<rparr>))
       (allocateScan m [10, 0, 0, 2] (v4InV6Prefix @ [10, 0, 0, 7]))"
  by (simp add: AllocateIP_def pool29_def ex_parse7 Mask_ip_def ex_incs)

definition allocs29 :: "(string, bool) fmap" where
  "allocs29 = fmupd ''10.0.0.6'' True (fmupd ''10.0.0.5'' True (fmupd ''10.0.0.4'' True
     (fmupd ''10.0.0.3'' True (fmupd ''10.0.0.2'' True (fmupd ''10.0.0.1'' True fmempty)))))"

lemma ex_pool29_upd: "pool29 = pool29\<lparr>allocated := fmupd ''10.0.0.1'' True fmempty\<rparr>"
  by (simp add: pool29_def)

lemma ex_chain:
  "allocateN 6 pool29 =
     Some ([Inr ''10.0.0.2'', Inr ''10.0.0.3'', Inr ''10.0.0.4'', Inr ''10.0.0.5'', Inr ''10.0.0.6'',
            Inl NoAvailableIP], pool29\<lparr>allocated := allocs29\<rparr>)"
  apply (subst ex_pool29_upd)
  apply (simp add: eval_nat_numeral ex_AllocateIP scan_end scan_hit scan_skip ex_strs ex_incs ex_neqs
      isSet_def allocs29_def)
  done

lemma ex_counts: "GetTotalIPs pool29 = 6" "GetAvailableCount pool29 = 5"
  by (simp_all add: GetTotalIPs_def GetAvailableCount_def len_allocated_def pool29_def fcard_finsert_if)

text \<open>
  Claim C4.  The pool built from \<open>10.0.0.0/29\<close> has 6 usable hosts, of which 5 are available
  right after construction (the server holds one); six calls of \<open>AllocateIP\<close> in a row return
  \<open>10.0.0.2\<close> to \<open>10.0.0.6\<close>, five distinct addresses, and then fail with the exhaustion
  error.
\<close>

theorem C4_pool29:
  "NewIPPool ''10.0.0.0/29'' = Inr pool29 \<and>
   GetTotalIPs pool29 = 6 \<and>
   GetAvailableCount pool29 = 5 \<and>
   allocateN 6 pool29 =
     Some ([Inr ''10.0.0.2'', Inr ''10.0.0.3'', Inr ''10.0.0.4'', Inr ''10.0.0.5'', Inr ''10.0.0.6'',
            Inl NoAvailableIP], pool29\<lparr>allocated := allocs29\<rparr>) \<and>
   distinct [''10.0.0.2'', ''10.0.0.3'', ''10.0.0.4'', ''10.0.0.5'', ''10.0.0.6'']"
  using ex_new ex_counts ex_chain by simp

lemma net4_idem: "length a4 = 4 \<Longrightarrow> map2 (AND) (net4 a4 k4) (cidrMaskBytes 4 k4) = net4 a4 k4"
  using map2_and_idem[of a4 "cidrMaskBytes 4 k4"] by (simp add: net4_def cidr_length)

lemma zip_pre:
  "length P = length Q \<Longrightarrow> map2 f (P @ xs) (Q @ ys) = map2 f P Q @ map2 f xs ys"
  by (simp add: zip_append)

lemma shape_Mask_ip:
  assumes "shape P a4 k4 n"
  shows "Mask_ip (IP n) (Mask n) = P @ net4 a4 k4"
proof -
  have s: "P = [] \<or> P = v4InV6Prefix" "length a4 = 4"
    "IP n = P @ net4 a4 k4" "Mask n = replicate (length P) 0xff @ cidrMaskBytes 4 k4"
    using assms by (simp_all add: shape_def net4_def)
  have l: "length (IP n) = length P + 4" "length (Mask n) = length P + 4"
    using s by (simp_all add: net4_length cidr_length)
  have lp: "length P = 0 \<or> length P = 12" using s(1) by (auto simp: pre_len)
  have "Mask_ip (IP n) (Mask n) = map2 (AND) (IP n) (Mask n)"
    using l lp by (auto simp: Mask_ip_def Let_def)
  also have "\<dots> = map2 (AND) P (replicate (length P) 0xff) @ map2 (AND) (net4 a4 k4) (cidrMaskBytes 4 k4)"
    unfolding s(3,4) by (rule zip_pre) simp
  also have "\<dots> = P @ net4 a4 k4" using s(2) by (simp add: map2_and_ff net4_idem)
  finally show ?thesis .
qed

lemma shape_bcast:
  assumes "shape P a4 k4 n"
  shows "map2 (\<lambda>b m. b OR NOT m) (P @ net4 a4 k4) (Mask n) = P @ bcast4 a4 k4"
proof -
  have s: "Mask n = replicate (length P) 0xff @ cidrMaskBytes 4 k4"
    using assms by (simp_all add: shape_def)
  have "map2 (\<lambda>b m. b OR NOT m) (P @ net4 a4 k4) (Mask n)
        = map2 (\<lambda>b m. b OR NOT m) P (replicate (length P) 0xff)
          @ map2 (\<lambda>b m. b OR NOT m) (net4 a4 k4) (cidrMaskBytes 4 k4)"
    unfolding s by (rule zip_pre) simp
  then show ?thesis by (simp add: map2_or_not_ff bcast4_def)
qed

lemma shape_nnm:
  assumes "shape P a4 k4 n"
  shows "networkNumberAndMask n = Some (net4 a4 k4, cidrMaskBytes 4 k4)"
proof -
  have s: "P = [] \<or> P = v4InV6Prefix" "length a4 = 4"
    "IP n = P @ net4 a4 k4" "Mask n = replicate (length P) 0xff @ cidrMaskBytes 4 k4"
    using assms by (simp_all add: shape_def net4_def)
  have t: "To4 (IP n) = Some (net4 a4 k4)" using To4_pre[OF s(1) net4_length[OF s(2)]] s(3) by simp
  show ?thesis using s(1)
  proof
    assume "P = []"
    then show ?thesis using t s by (simp add: networkNumberAndMask_def Let_def cidr_length net4_length)
  next
    assume "P = v4InV6Prefix"
    then show ?thesis using t s by (simp add: networkNumberAndMask_def Let_def cidr_length net4_length pre_len)
  qed
qed

lemma list_all_upt: "list_all Q [0 ..< n] \<longleftrightarrow> (\<forall>i<n. Q i)"
  by (auto simp: list_all_iff)

lemma map2_and_eq_iff:
  "length xs = length ms \<Longrightarrow> length ys = length ms \<Longrightarrow>
   (\<forall>i<length ms. (xs ! i) AND (ms ! i) = (ys ! i) AND (ms ! i)) \<longleftrightarrow> map2 (AND) xs ms = map2 (AND) ys (ms :: byte list)"
  by (auto simp: list_eq_iff_nth_eq)

lemma shape_Contains:
  assumes "shape P a4 k4 n" "length x4 = 4"
  shows "Contains n (v4InV6Prefix @ x4) \<longleftrightarrow> map2 (AND) x4 (cidrMaskBytes 4 k4) = net4 a4 k4"
proof -
  have l4: "length a4 = 4" using assms(1) by (simp add: shape_def)
  have t: "To4 (v4InV6Prefix @ x4) = Some x4" using To4_pre[of v4InV6Prefix x4] assms(2) by simp
  have "Contains n (v4InV6Prefix @ x4) \<longleftrightarrow>
        (\<forall>i<length (cidrMaskBytes 4 k4). (net4 a4 k4 ! i) AND (cidrMaskBytes 4 k4 ! i) = (x4 ! i) AND (cidrMaskBytes 4 k4 ! i))"
    using assms(2) l4 by (simp add: Contains_def shape_nnm[OF assms(1)] t list_all_upt net4_length cidr_length)
  also have "\<dots> \<longleftrightarrow> map2 (AND) (net4 a4 k4) (cidrMaskBytes 4 k4) = map2 (AND) x4 (cidrMaskBytes 4 k4)"
    by (rule map2_and_eq_iff) (use assms(2) l4 in \<open>simp_all add: net4_length cidr_length\<close>)
  finally show ?thesis using net4_idem[OF l4, of k4] by auto
qed

lemma in_range_masked:
  fixes x N d :: nat
  assumes "N mod d = 0" "N \<le> x" "x < N + d" "0 < d"
  shows "x - x mod d = N"
proof -
  have "d * (N div d) + N mod d = N" by (rule mult_div_mod_eq)
  then have nd: "N = d * (N div d)" using assms(1) by simp
  have "x div d = N div d"
  proof (rule div_nat_eqI)
    show "d * (N div d) \<le> x" using nd assms(2) by simp
    have "x < d * (N div d) + d" using assms(3) nd by simp
    then show "x < d * Suc (N div d)" by simp
  qed
  then have "x - x mod d = d * (N div d)" by (simp add: minus_mod_eq_mult_div)
  then show ?thesis using nd by simp
qed

lemma shape_Contains_range:
  assumes sh: "shape P a4 k4 n" and l: "length x4 = 4"
    and lo: "ipv (net4 a4 k4) \<le> ipv x4" and hi: "ipv x4 \<le> ipv (bcast4 a4 k4)"
  shows "Contains n (v4InV6Prefix @ x4)"
proof -
  have l4: "length a4 = 4" and k: "k4 \<le> 32" using sh by (simp_all add: shape_def)
  define d :: nat where "d = 2 ^ (32 - k4)"
  have d0: "0 < d" by (simp add: d_def)
  have N: "ipv (net4 a4 k4) = ipv a4 - ipv a4 mod d" using ipv_net4[OF l4 k] by (simp add: d_def)
  have "(ipv a4 - ipv a4 mod d) mod d = 0" by (simp add: minus_mod_eq_mult_div)
  then have Nm: "ipv (net4 a4 k4) mod d = 0" by (simp only: N)
  have B: "ipv (bcast4 a4 k4) = ipv (net4 a4 k4) + d - 1" using ipv_bcast4[OF l4 k] by (simp add: d_def)
  have lt: "ipv x4 < ipv (net4 a4 k4) + d" using hi B d0 by simp
  have "ipv (map2 (AND) x4 (cidrMaskBytes 4 k4)) = ipv x4 AND (2 ^ 32 - 2 ^ (32 - k4))"
    using ipv_and[of x4 "cidrMaskBytes 4 k4"] l k by (simp add: cidr_length ipv_m4)
  also have "\<dots> = ipv x4 - ipv x4 mod d"
    unfolding d_def by (rule and_high_mask[OF ipv_lt32[OF l]]) simp
  also have "\<dots> = ipv (net4 a4 k4)" by (rule in_range_masked[OF Nm lo lt d0])
  finally have "map2 (AND) x4 (cidrMaskBytes 4 k4) = net4 a4 k4"
    by (intro ipv_inj) (use l l4 in \<open>simp_all add: net4_length cidr_length\<close>)
  then show ?thesis using shape_Contains[OF sh l] by simp
qed

definition net_inv :: "byte list \<Rightarrow> byte list \<Rightarrow> nat \<Rightarrow> IPPool \<Rightarrow> bool" where
  "net_inv P a4 k4 p \<longleftrightarrow>
     shape P a4 k4 (ipNet p) \<and>
     networkAddress p = dotted (net4 a4 k4) \<and>
     broadcastAddress p = dotted (bcast4 a4 k4) \<and>
     serverIP p = dotted (incrementIP (net4 a4 k4) 1) \<and>
     totalHosts p = 2 ^ (32 - k4) - 2"

definition map_inv :: "IPPool \<Rightarrow> bool" where
  "map_inv p \<longleftrightarrow>
     fmlookup (allocated p) (serverIP p) = Some True \<and>
     fmlookup (allocated p) (networkAddress p) = None \<and>
     fmlookup (allocated p) (broadcastAddress p) = None \<and>
     (\<forall>k. fmlookup (allocated p) k \<noteq> Some False)"

definition pool_inv :: "IPPool \<Rightarrow> bool" where
  "pool_inv p \<longleftrightarrow> (\<exists>P a4 k4. net_inv P a4 k4 p) \<and> map_inv p"

lemma shape_values:
  assumes "shape P a4 k4 n"
  shows "length a4 = 4" and "k4 \<le> 29" and "P = [] \<or> P = v4InV6Prefix"
    and "ipv (bcast4 a4 k4) = ipv (net4 a4 k4) + 2 ^ (32 - k4) - 1"
    and "ipv (net4 a4 k4) + 7 \<le> ipv (bcast4 a4 k4)"
    and "ipv (bcast4 a4 k4) < 2 ^ 32"
proof -
  show l: "length a4 = 4" and k: "k4 \<le> 29" and "P = [] \<or> P = v4InV6Prefix"
    using assms by (simp_all add: shape_def)
  have k32: "k4 \<le> 32" using k by simp
  show b: "ipv (bcast4 a4 k4) = ipv (net4 a4 k4) + 2 ^ (32 - k4) - 1" by (rule ipv_bcast4[OF l k32])
  have "(2::nat) ^ 3 \<le> 2 ^ (32 - k4)" using k by (intro power_increasing) simp_all
  then show "ipv (net4 a4 k4) + 7 \<le> ipv (bcast4 a4 k4)" using b by simp
  show "ipv (bcast4 a4 k4) < 2 ^ 32" by (rule ipv_lt32[OF bcast4_length[OF l]])
qed

lemma NewIPPool_net_inv:
  assumes "NewIPPool cidr = Inr p"
  shows "\<exists>P a4 k4. net_inv P a4 k4 p \<and> allocated p = fmupd (serverIP p) True fmempty"
proof -
  obtain n where pc: "ParseCIDR cidr = Some n"
    using assms by (auto simp: NewIPPool_def split: option.splits)
  have t: "To4 (IP n) \<noteq> None" using assms pc by (auto simp: NewIPPool_def split: if_splits)
  obtain ones bits where sz: "Size_mask (Mask n) = (ones, bits)" by (cases "Size_mask (Mask n)") auto
  have small: "\<not> bits - ones < 3" using assms pc t sz by (auto simp: NewIPPool_def split: if_splits)
  obtain P a4 k4 where sh: "shape P a4 k4 n" and h: "bits - ones = 32 - int k4"
    using ParseCIDR_shape[OF pc t sz small] by blast
  note v = shape_values[OF sh]
  have N: "Mask_ip (IP n) (Mask n) = P @ net4 a4 k4" by (rule shape_Mask_ip[OF sh])
  have l4: "length (net4 a4 k4) = 4" by (rule net4_length[OF v(1)])
  have inc: "incrementIP (P @ net4 a4 k4) 1 = P @ incrementIP (net4 a4 k4) 1"
            "length (incrementIP (net4 a4 k4) 1) = 4"
    using incrementIP_append[of 1 "net4 a4 k4" P] v(5,6) l4 by (simp_all add: incrementIP_length)
  have hh: "nat (bits - ones) = 32 - k4" using h v(2) by simp
  have p: "p = \<lparr>network = cidr, ipNet = n,
                 serverIP = String_ip (incrementIP (P @ net4 a4 k4) 1),
                 allocated = fmupd (String_ip (incrementIP (P @ net4 a4 k4) 1)) True fmempty,
                 networkAddress = String_ip (P @ net4 a4 k4),
                 broadcastAddress = String_ip (map2 (\<lambda>b m. b OR NOT m) (P @ net4 a4 k4) (Mask n)),
                 totalHosts = 2 ^ nat (bits - ones) - 2\<rparr>"
    using assms pc t sz small by (simp add: NewIPPool_def Let_def N)
  have "net_inv P a4 k4 p"
    unfolding net_inv_def
    by (subst p, subst p, subst p, subst p, subst p)
       (simp add: sh shape_bcast[OF sh] inc String_pre[OF v(3)] l4 bcast4_length[OF v(1)] hh)
  moreover have "allocated p = fmupd (serverIP p) True fmempty" by (subst p, subst p) simp
  ultimately show ?thesis by blast
qed

lemma dotted_neq: "length x = 4 \<Longrightarrow> length y = 4 \<Longrightarrow> ipv x \<noteq> ipv y \<Longrightarrow> dotted x \<noteq> dotted y"
  using dotted_inj[of x y] by blast

lemma scan_spec:
  assumes P: "P = [] \<or> P = v4InV6Prefix" and lb: "length b4 = 4"
  shows "length c4 = 4 \<Longrightarrow> ipv c4 \<le> ipv b4 \<Longrightarrow> ipv b4 - ipv c4 = d \<Longrightarrow>
         allocateScan al (P @ c4) (v4InV6Prefix @ b4) = Some (Inl NoAvailableIP, al) \<or>
         (\<exists>x4. length x4 = 4 \<and> ipv c4 \<le> ipv x4 \<and> ipv x4 < ipv b4 \<and> \<not> isSet al (dotted x4) \<and>
               allocateScan al (P @ c4) (v4InV6Prefix @ b4) = Some (Inr (dotted x4), fmupd (dotted x4) True al))"
proof (induction d arbitrary: c4)
  case 0
  then have "ipv c4 = ipv b4" by simp
  then have "c4 = b4" using ipv_inj[of c4 b4] "0.prems"(1) lb by simp
  then have "Equal (P @ c4) (v4InV6Prefix @ b4)" using Equal_pre[OF P, of c4 b4] lb by simp
  then show ?case by (simp add: scan_end)
next
  case (Suc d)
  have lt: "ipv c4 < ipv b4" using Suc.prems by simp
  then have "c4 \<noteq> b4" by auto
  then have ne: "\<not> Equal (P @ c4) (v4InV6Prefix @ b4)" using Equal_pre[OF P Suc.prems(1) lb] by simp
  have str: "String_ip (P @ c4) = dotted c4" by (rule String_pre[OF P Suc.prems(1)])
  show ?case
  proof (cases "isSet al (dotted c4)")
    case False
    then have "allocateScan al (P @ c4) (v4InV6Prefix @ b4) = Some (Inr (dotted c4), fmupd (dotted c4) True al)"
      using scan_hit[OF ne] str by simp
    then show ?thesis using False lt Suc.prems(1) by blast
  next
    case True
    have b32: "ipv b4 < 256 ^ 4" using ipv_lt[of b4] lb by simp
    have ov: "ipv c4 + nat 1 < 256 ^ 4" using lt b32 by simp
    have inc: "incrementIP (P @ c4) 1 = P @ incrementIP c4 1"
      "ipv (incrementIP c4 1) = ipv c4 + 1" "length (incrementIP c4 1) = 4"
      using incrementIP_append[of 1 c4 P] incrementIP_ipv[of 1 c4] ov Suc.prems(1)
      by (simp_all add: incrementIP_length)
    have step: "allocateScan al (P @ c4) (v4InV6Prefix @ b4)
                = allocateScan al (P @ incrementIP c4 1) (v4InV6Prefix @ b4)"
      using scan_skip[OF ne] True str inc(1) by simp
    have "ipv (incrementIP c4 1) \<le> ipv b4" "ipv b4 - ipv (incrementIP c4 1) = d"
      using lt Suc.prems(3) inc(2) by simp_all
    from Suc.IH[OF inc(3) this]
    show ?thesis unfolding step using inc(2) by (elim disjE exE conjE) (auto intro: exI)
  qed
qed

lemma net_inv_facts:
  assumes "net_inv P a4 k4 p"
  shows "length (net4 a4 k4) = 4" and "length (bcast4 a4 k4) = 4"
    and "length (incrementIP (net4 a4 k4) 1) = 4"
    and "ipv (incrementIP (net4 a4 k4) 1) = ipv (net4 a4 k4) + 1"
    and "ipv (net4 a4 k4) + 7 \<le> ipv (bcast4 a4 k4)"
    and "P = [] \<or> P = v4InV6Prefix"
    and "shape P a4 k4 (ipNet p)"
proof -
  show sh: "shape P a4 k4 (ipNet p)" using assms by (simp add: net_inv_def)
  note v = shape_values[OF sh]
  show l: "length (net4 a4 k4) = 4" by (rule net4_length[OF v(1)])
  show "length (bcast4 a4 k4) = 4" by (rule bcast4_length[OF v(1)])
  show "length (incrementIP (net4 a4 k4) 1) = 4" using l by (simp add: incrementIP_length)
  show "ipv (incrementIP (net4 a4 k4) 1) = ipv (net4 a4 k4) + 1"
    using incrementIP_ipv[of 1 "net4 a4 k4"] v(5,6) l by simp
  show "ipv (net4 a4 k4) + 7 \<le> ipv (bcast4 a4 k4)" by (rule v(5))
  show "P = [] \<or> P = v4InV6Prefix" by (rule v(3))
qed

lemma net_inv_names:
  assumes "net_inv P a4 k4 p"
  shows "networkAddress p \<noteq> serverIP p" and "broadcastAddress p \<noteq> serverIP p"
    and "networkAddress p \<noteq> broadcastAddress p"
proof -
  note f = net_inv_facts[OF assms]
  have n: "networkAddress p = dotted (net4 a4 k4)" "broadcastAddress p = dotted (bcast4 a4 k4)"
    "serverIP p = dotted (incrementIP (net4 a4 k4) 1)" using assms by (simp_all add: net_inv_def)
  show "networkAddress p \<noteq> serverIP p"
    unfolding n by (rule dotted_neq[OF f(1) f(3)]) (use f(4) in simp)
  show "broadcastAddress p \<noteq> serverIP p"
    unfolding n by (rule dotted_neq[OF f(2) f(3)]) (use f(4,5) in simp)
  show "networkAddress p \<noteq> broadcastAddress p"
    unfolding n by (rule dotted_neq[OF f(1) f(2)]) (use f(5) in simp)
qed

lemma net_inv_fresh:
  assumes "net_inv P a4 k4 p" "length x4 = 4" "ipv (net4 a4 k4) + 2 \<le> ipv x4" "ipv x4 < ipv (bcast4 a4 k4)"
  shows "dotted x4 \<noteq> networkAddress p" and "dotted x4 \<noteq> broadcastAddress p" and "dotted x4 \<noteq> serverIP p"
proof -
  note f = net_inv_facts[OF assms(1)]
  have n: "networkAddress p = dotted (net4 a4 k4)" "broadcastAddress p = dotted (bcast4 a4 k4)"
    "serverIP p = dotted (incrementIP (net4 a4 k4) 1)" using assms(1) by (simp_all add: net_inv_def)
  show "dotted x4 \<noteq> networkAddress p"
    unfolding n by (rule dotted_neq[OF assms(2) f(1)]) (use assms(3) in simp)
  show "dotted x4 \<noteq> broadcastAddress p"
    unfolding n by (rule dotted_neq[OF assms(2) f(2)]) (use assms(4) in simp)
  show "dotted x4 \<noteq> serverIP p"
    unfolding n by (rule dotted_neq[OF assms(2) f(3)]) (use assms(3) f(4) in simp)
qed

lemma net_inv_update: "net_inv P a4 k4 p \<Longrightarrow> net_inv P a4 k4 (p\<lparr>allocated := al\<rparr>)"
  by (simp add: net_inv_def)

lemma AllocateIP_spec:
  assumes inv: "net_inv P a4 k4 p"
  shows "AllocateIP p = Some (Inl NoAvailableIP, p) \<or>
         (\<exists>x4. length x4 = 4 \<and> ipv (net4 a4 k4) + 2 \<le> ipv x4 \<and> ipv x4 < ipv (bcast4 a4 k4) \<and>
               \<not> isSet (allocated p) (dotted x4) \<and>
               AllocateIP p = Some (Inr (dotted x4), p\<lparr>allocated := fmupd (dotted x4) True (allocated p)\<rparr>))"
proof -
  note f = net_inv_facts[OF inv]
  have b32: "ipv (bcast4 a4 k4) < 256 ^ 4" using ipv_lt[of "bcast4 a4 k4"] f(2) by simp
  have ov: "ipv (net4 a4 k4) + nat 2 < 256 ^ 4" using f(5) b32 by simp
  define c4 where "c4 = incrementIP (net4 a4 k4) 2"
  have c: "incrementIP (P @ net4 a4 k4) 2 = P @ c4" "ipv c4 = ipv (net4 a4 k4) + 2" "length c4 = 4"
    using incrementIP_append[of 2 "net4 a4 k4" P] incrementIP_ipv[of 2 "net4 a4 k4"] ov f(1)
    by (simp_all add: incrementIP_length c4_def)
  have start: "incrementIP (Mask_ip (IP (ipNet p)) (Mask (ipNet p))) 2 = P @ c4"
    using shape_Mask_ip[OF f(7)] c(1) by simp
  have bc: "ParseIP (broadcastAddress p) = Some (v4InV6Prefix @ bcast4 a4 k4)"
    using inv ParseIP_dotted[OF f(2)] by (simp add: net_inv_def)
  have A: "AllocateIP p = map_option (\<lambda>(r, al). (r, p\<lparr>allocated := al\<rparr>))
            (allocateScan (allocated p) (P @ c4) (v4InV6Prefix @ bcast4 a4 k4))"
    by (simp add: AllocateIP_def start bc)
  have le: "ipv c4 \<le> ipv (bcast4 a4 k4)" using c(2) f(5) by simp
  from scan_spec[OF f(6) f(2) c(3) le refl, of "allocated p"]
  show ?thesis
  proof (elim disjE exE conjE)
    assume "allocateScan (allocated p) (P @ c4) (v4InV6Prefix @ bcast4 a4 k4) = Some (Inl NoAvailableIP, allocated p)"
    then show ?thesis by (simp add: A)
  next
    fix x4
    assume x: "length x4 = 4" "ipv c4 \<le> ipv x4" "ipv x4 < ipv (bcast4 a4 k4)" "\<not> isSet (allocated p) (dotted x4)"
      "allocateScan (allocated p) (P @ c4) (v4InV6Prefix @ bcast4 a4 k4)
         = Some (Inr (dotted x4), fmupd (dotted x4) True (allocated p))"
    have "AllocateIP p = Some (Inr (dotted x4), p\<lparr>allocated := fmupd (dotted x4) True (allocated p)\<rparr>)"
      by (simp add: A x(5))
    moreover have "ipv (net4 a4 k4) + 2 \<le> ipv x4" using x(2) c(2) by simp
    ultimately show ?thesis using x(1,3,4) by blast
  qed
qed

lemma NewIPPool_inv: "NewIPPool cidr = Inr p \<Longrightarrow> pool_inv p"
proof -
  assume a: "NewIPPool cidr = Inr p"
  obtain P a4 k4 where n: "net_inv P a4 k4 p" and al: "allocated p = fmupd (serverIP p) True fmempty"
    using NewIPPool_net_inv[OF a] by blast
  have "map_inv p" using net_inv_names[OF n] by (simp add: map_inv_def al)
  then show ?thesis using n by (auto simp: pool_inv_def)
qed

lemma isSet_dom: "isSet m k \<Longrightarrow> fmlookup m k = Some True"
  by (auto simp: isSet_def split: option.splits)

lemma not_isSet_dom: "\<forall>k. fmlookup m k \<noteq> Some False \<Longrightarrow> \<not> isSet m k \<Longrightarrow> fmlookup m k = None"
  by (cases "fmlookup m k") (auto simp: isSet_def)

lemma map_inv_upd:
  assumes "map_inv p" "k \<noteq> networkAddress p" "k \<noteq> broadcastAddress p"
  shows "map_inv (p\<lparr>allocated := fmupd k True (allocated p)\<rparr>)"
  using assms by (auto simp: map_inv_def)

lemma map_inv_drop:
  assumes "map_inv p" "k \<noteq> serverIP p"
  shows "map_inv (p\<lparr>allocated := fmdrop k (allocated p)\<rparr>)"
  using assms by (auto simp: map_inv_def)

lemma AllocateIP_inv:
  assumes "pool_inv p" "AllocateIP p = Some (r, p')"
  shows "pool_inv p'"
proof -
  obtain P a4 k4 where n: "net_inv P a4 k4 p" and m: "map_inv p" using assms(1) by (auto simp: pool_inv_def)
  from AllocateIP_spec[OF n] show ?thesis
  proof (elim disjE exE conjE)
    assume "AllocateIP p = Some (Inl NoAvailableIP, p)"
    then show ?thesis using assms by simp
  next
    fix x4
    assume x: "length x4 = 4" "ipv (net4 a4 k4) + 2 \<le> ipv x4" "ipv x4 < ipv (bcast4 a4 k4)"
      "AllocateIP p = Some (Inr (dotted x4), p\<lparr>allocated := fmupd (dotted x4) True (allocated p)\<rparr>)"
    have p': "p' = p\<lparr>allocated := fmupd (dotted x4) True (allocated p)\<rparr>" using x(4) assms(2) by simp
    have "map_inv p'" unfolding p' by (rule map_inv_upd[OF m net_inv_fresh(1,2)[OF n x(1,2,3)]])
    moreover have "net_inv P a4 k4 p'" unfolding p' by (rule net_inv_update[OF n])
    ultimately show ?thesis by (auto simp: pool_inv_def)
  qed
qed

lemma AllocateSpecificIP_inv:
  assumes "pool_inv p" "AllocateSpecificIP p ip = Inr p'"
  shows "pool_inv p'"
proof -
  obtain P a4 k4 where n: "net_inv P a4 k4 p" and m: "map_inv p" using assms(1) by (auto simp: pool_inv_def)
  have c: "ip \<noteq> networkAddress p" "ip \<noteq> broadcastAddress p"
    and p': "p' = p\<lparr>allocated := fmupd ip True (allocated p)\<rparr>"
    using assms(2) by (auto simp: AllocateSpecificIP_def split: option.splits if_splits)
  have "map_inv p'" unfolding p' by (rule map_inv_upd[OF m c])
  moreover have "net_inv P a4 k4 p'" unfolding p' by (rule net_inv_update[OF n])
  ultimately show ?thesis by (auto simp: pool_inv_def)
qed

lemma ReleaseIP_inv:
  assumes "pool_inv p" "ReleaseIP p ip = Inr p'"
  shows "pool_inv p'"
proof -
  obtain P a4 k4 where n: "net_inv P a4 k4 p" and m: "map_inv p" using assms(1) by (auto simp: pool_inv_def)
  have c: "ip \<noteq> serverIP p" and p': "p' = p\<lparr>allocated := fmdrop ip (allocated p)\<rparr>"
    using assms(2) by (auto simp: ReleaseIP_def split: option.splits if_splits)
  have "map_inv p'" unfolding p' by (rule map_inv_drop[OF m c])
  moreover have "net_inv P a4 k4 p'" unfolding p' by (rule net_inv_update[OF n])
  ultimately show ?thesis by (auto simp: pool_inv_def)
qed

inductive reachable :: "IPPool \<Rightarrow> bool" where
  reach_new: "NewIPPool cidr = Inr p \<Longrightarrow> reachable p"
| reach_allocate: "reachable p \<Longrightarrow> AllocateIP p = Some (r, p') \<Longrightarrow> reachable p'"
| reach_specific: "reachable p \<Longrightarrow> AllocateSpecificIP p ip = Inr p' \<Longrightarrow> reachable p'"
| reach_release: "reachable p \<Longrightarrow> ReleaseIP p ip = Inr p' \<Longrightarrow> reachable p'"

lemma reachable_inv: "reachable p \<Longrightarrow> pool_inv p"
  by (induction rule: reachable.induct)
     (auto intro: NewIPPool_inv AllocateIP_inv AllocateSpecificIP_inv ReleaseIP_inv)

lemma ex_reachable: "reachable pool29"
  by (rule reach_new[OF ex_new])

lemma ex_alloc1:
  "AllocateIP pool29 = Some (Inr ''10.0.0.2'', pool29\<lparr>allocated := fmupd ''10.0.0.2'' True (fmupd ''10.0.0.1'' True fmempty)\<rparr>)"
  apply (subst ex_pool29_upd)
  apply (simp add: ex_AllocateIP scan_end scan_hit scan_skip ex_strs ex_incs ex_neqs isSet_def)
  done

text \<open>
  Claim C2.  In every state of a pool that \<open>NewIPPool\<close> built (so from a CIDR with at least
  three host bits) and that any sequence of allocations and releases has changed since,
  \<open>AllocateIP\<close> returns, and an address it returns is none of the network address, the
  broadcast address and the server address.
\<close>

theorem C2_allocate_avoids_reserved:
  assumes "reachable p"
  shows "(\<exists>r p'. AllocateIP p = Some (r, p')) \<and>
         (\<forall>ip p'. AllocateIP p = Some (Inr ip, p') \<longrightarrow>
            ip \<noteq> networkAddress p \<and> ip \<noteq> broadcastAddress p \<and> ip \<noteq> serverIP p)"
proof -
  obtain P a4 k4 where n: "net_inv P a4 k4 p"
    using reachable_inv[OF assms] by (auto simp: pool_inv_def)
  from AllocateIP_spec[OF n] show ?thesis
  proof (elim disjE exE conjE)
    assume "AllocateIP p = Some (Inl NoAvailableIP, p)"
    then show ?thesis by simp
  next
    fix x4
    assume x: "length x4 = 4" "ipv (net4 a4 k4) + 2 \<le> ipv x4" "ipv x4 < ipv (bcast4 a4 k4)"
      "AllocateIP p = Some (Inr (dotted x4), p\<lparr>allocated := fmupd (dotted x4) True (allocated p)\<rparr>)"
    show ?thesis using net_inv_fresh[OF n x(1,2,3)] x(4) by simp
  qed
qed

theorem C2_witness:
  "reachable pool29 \<and>
   AllocateIP pool29 = Some (Inr ''10.0.0.2'', pool29\<lparr>allocated := fmupd ''10.0.0.2'' True (fmupd ''10.0.0.1'' True fmempty)\<rparr>) \<and>
   ''10.0.0.2'' \<noteq> networkAddress pool29 \<and> ''10.0.0.2'' \<noteq> broadcastAddress pool29 \<and>
   ''10.0.0.2'' \<noteq> serverIP pool29"
  using C2_allocate_avoids_reserved[OF ex_reachable] ex_reachable ex_alloc1 by simp

lemma reserved_parse:
  assumes n: "net_inv P a4 k4 p"
  shows "ParseIP (networkAddress p) = Some (v4InV6Prefix @ net4 a4 k4)"
    and "ParseIP (broadcastAddress p) = Some (v4InV6Prefix @ bcast4 a4 k4)"
    and "ParseIP (serverIP p) = Some (v4InV6Prefix @ incrementIP (net4 a4 k4) 1)"
    and "Contains (ipNet p) (v4InV6Prefix @ net4 a4 k4)"
    and "Contains (ipNet p) (v4InV6Prefix @ bcast4 a4 k4)"
    and "Contains (ipNet p) (v4InV6Prefix @ incrementIP (net4 a4 k4) 1)"
proof -
  note f = net_inv_facts[OF n]
  have s: "networkAddress p = dotted (net4 a4 k4)" "broadcastAddress p = dotted (bcast4 a4 k4)"
    "serverIP p = dotted (incrementIP (net4 a4 k4) 1)" using n by (simp_all add: net_inv_def)
  show "ParseIP (networkAddress p) = Some (v4InV6Prefix @ net4 a4 k4)"
    unfolding s by (rule ParseIP_dotted[OF f(1)])
  show "ParseIP (broadcastAddress p) = Some (v4InV6Prefix @ bcast4 a4 k4)"
    unfolding s by (rule ParseIP_dotted[OF f(2)])
  show "ParseIP (serverIP p) = Some (v4InV6Prefix @ incrementIP (net4 a4 k4) 1)"
    unfolding s by (rule ParseIP_dotted[OF f(3)])
  show "Contains (ipNet p) (v4InV6Prefix @ net4 a4 k4)"
    by (rule shape_Contains_range[OF f(7) f(1)]) (use f(5) in simp_all)
  show "Contains (ipNet p) (v4InV6Prefix @ bcast4 a4 k4)"
    by (rule shape_Contains_range[OF f(7) f(2)]) (use f(5) in simp_all)
  show "Contains (ipNet p) (v4InV6Prefix @ incrementIP (net4 a4 k4) 1)"
    by (rule shape_Contains_range[OF f(7) f(3)]) (use f(4,5) in simp_all)
qed

text \<open>
  Claim C3, as the code has it.  The pool stores its three reserved addresses as the
  dotted-quad strings \<open>networkAddress\<close>, \<open>broadcastAddress\<close> and \<open>serverIP\<close>, and the
  allocation map is keyed by the string a caller passes.  In every reachable state, at these
  three strings: the server string is marked allocated, and the network and the broadcast
  string are not (\<open>NewIPPool\<close> marks the server string only); \<open>AllocateSpecificIP\<close> refuses
  each of the three, with the network, the broadcast and the reserved-for-server error;
  \<open>ReleaseIP\<close> fails on each of the three and so leaves the pool as it is, on the server
  string because it is reserved, on the other two because they are not allocated.
  Nothing is said here about other spellings of the same addresses.
\<close>

theorem C3_reserved_addresses:
  assumes "reachable p"
  shows "IsAllocated p (serverIP p) \<and>
         \<not> IsAllocated p (networkAddress p) \<and>
         \<not> IsAllocated p (broadcastAddress p) \<and>
         AllocateSpecificIP p (networkAddress p) = Inl (IsNetworkAddress (networkAddress p)) \<and>
         AllocateSpecificIP p (broadcastAddress p) = Inl (IsBroadcastAddress (broadcastAddress p)) \<and>
         AllocateSpecificIP p (serverIP p) = Inl (ReservedForServer (serverIP p)) \<and>
         ReleaseIP p (serverIP p) = Inl (CannotReleaseServer (serverIP p)) \<and>
         ReleaseIP p (networkAddress p) = Inl (NotAllocated (networkAddress p)) \<and>
         ReleaseIP p (broadcastAddress p) = Inl (NotAllocated (broadcastAddress p))"
proof -
  obtain P a4 k4 where n: "net_inv P a4 k4 p" and m: "map_inv p"
    using reachable_inv[OF assms] by (auto simp: pool_inv_def)
  have a: "isSet (allocated p) (serverIP p)" "\<not> isSet (allocated p) (networkAddress p)"
    "\<not> isSet (allocated p) (broadcastAddress p)"
    using m by (simp_all add: map_inv_def isSet_def)
  note d = net_inv_names[OF n]
  have s: "AllocateSpecificIP p (networkAddress p) = Inl (IsNetworkAddress (networkAddress p))"
    "AllocateSpecificIP p (broadcastAddress p) = Inl (IsBroadcastAddress (broadcastAddress p))"
    "AllocateSpecificIP p (serverIP p) = Inl (ReservedForServer (serverIP p))"
    using reserved_parse[OF n] d d(1,2)[symmetric] d(3)[symmetric]
    by (simp_all add: AllocateSpecificIP_def)
  have r: "ReleaseIP p (serverIP p) = Inl (CannotReleaseServer (serverIP p))"
    "ReleaseIP p (networkAddress p) = Inl (NotAllocated (networkAddress p))"
    "ReleaseIP p (broadcastAddress p) = Inl (NotAllocated (broadcastAddress p))"
    using a reserved_parse[OF n] by (simp_all add: ReleaseIP_def)
  show ?thesis using a s r by (simp add: IsAllocated_def)
qed

theorem C3_witness:
  "reachable pool29 \<and> IsAllocated pool29 ''10.0.0.1'' \<and>
   \<not> IsAllocated pool29 ''10.0.0.0'' \<and> \<not> IsAllocated pool29 ''10.0.0.7'' \<and>
   AllocateSpecificIP pool29 ''10.0.0.0'' = Inl (IsNetworkAddress ''10.0.0.0'') \<and>
   AllocateSpecificIP pool29 ''10.0.0.7'' = Inl (IsBroadcastAddress ''10.0.0.7'') \<and>
   AllocateSpecificIP pool29 ''10.0.0.1'' = Inl (ReservedForServer ''10.0.0.1'') \<and>
   ReleaseIP pool29 ''10.0.0.1'' = Inl (CannotReleaseServer ''10.0.0.1'') \<and>
   ReleaseIP pool29 ''10.0.0.0'' = Inl (NotAllocated ''10.0.0.0'') \<and>
   ReleaseIP pool29 ''10.0.0.7'' = Inl (NotAllocated ''10.0.0.7'')"
  using C3_reserved_addresses[OF ex_reachable] ex_reachable by (simp add: pool29_def)

theorem C3_counterexample:
  "reachable pool29 \<and>
   \<not> IsAllocated pool29 (networkAddress pool29) \<and>
   \<not> IsAllocated pool29 (broadcastAddress pool29)"
  using ex_reachable by (simp add: IsAllocated_def isSet_def pool29_def)

lemma counts_sum: "GetAvailableCount p + GetAllocatedCount p = GetTotalIPs p"
  by (simp add: GetAvailableCount_def GetAllocatedCount_def GetTotalIPs_def Let_def)

lemma total_hosts_range:
  assumes n: "net_inv P a4 k4 p"
  shows "totalHosts p = int (ipv (bcast4 a4 k4)) - int (ipv (net4 a4 k4)) + 1 - 2"
proof -
  have sh: "shape P a4 k4 (ipNet p)" and t: "totalHosts p = 2 ^ (32 - k4) - 2"
    using n by (simp_all add: net_inv_def)
  note v = shape_values[OF sh]
  have pos: "(1::nat) \<le> ipv (net4 a4 k4) + 2 ^ (32 - k4)" by (simp add: trans_le_add2)
  have "int (ipv (bcast4 a4 k4)) = int (ipv (net4 a4 k4) + 2 ^ (32 - k4)) - int 1"
    unfolding v(4) by (rule of_nat_diff[OF pos])
  then have "int (ipv (bcast4 a4 k4)) = int (ipv (net4 a4 k4)) + 2 ^ (32 - k4) - 1"
    by simp
  then show ?thesis using t by simp
qed

text \<open>
  The available and the allocated count add up to the total in every state, and every
  operation leads from a reachable state to a reachable one; a failing \<open>AllocateIP\<close> leaves the
  pool as it was.  The server string is always a key of the allocation map, and the network
  and the broadcast string never are.
\<close>

lemma counts_preserved:
  assumes "reachable p"
  shows "GetAvailableCount p + GetAllocatedCount p = GetTotalIPs p \<and>
         (\<forall>r p'. AllocateIP p = Some (r, p') \<longrightarrow>
            reachable p' \<and> GetAvailableCount p' + GetAllocatedCount p' = GetTotalIPs p' \<and>
            (\<forall>e. r = Inl e \<longrightarrow> p' = p)) \<and>
         (\<forall>ip p'. AllocateSpecificIP p ip = Inr p' \<longrightarrow>
            reachable p' \<and> GetAvailableCount p' + GetAllocatedCount p' = GetTotalIPs p') \<and>
         (\<forall>ip p'. ReleaseIP p ip = Inr p' \<longrightarrow>
            reachable p' \<and> GetAvailableCount p' + GetAllocatedCount p' = GetTotalIPs p') \<and>
         serverIP p |\<in>| fmdom (allocated p) \<and>
         networkAddress p |\<notin>| fmdom (allocated p) \<and>
         broadcastAddress p |\<notin>| fmdom (allocated p)"
proof -
  obtain P a4 k4 where n: "net_inv P a4 k4 p" and m: "map_inv p"
    using reachable_inv[OF assms] by (auto simp: pool_inv_def)
  have fail: "p' = p" if "AllocateIP p = Some (Inl e, p')" for e p'
    using AllocateIP_spec[OF n] that by auto
  have dom: "serverIP p |\<in>| fmdom (allocated p)" "networkAddress p |\<notin>| fmdom (allocated p)"
    "broadcastAddress p |\<notin>| fmdom (allocated p)"
    using m by (auto simp: map_inv_def fmdom_notI intro: fmdomI)
  show ?thesis
    using counts_sum dom fail reach_allocate[OF assms] reach_specific[OF assms] reach_release[OF assms]
    by blast
qed

fun releaseAll :: "string list \<Rightarrow> IPPool \<Rightarrow> PoolError + IPPool" where
  "releaseAll [] p = Inr p"
| "releaseAll (ip # ips) p = (case ReleaseIP p ip of Inl e \<Rightarrow> Inl e | Inr p' \<Rightarrow> releaseAll ips p')"

lemma AllocateIP_len:
  assumes "pool_inv p" "AllocateIP p = Some (Inr ip, p')"
  shows "len_allocated p' = len_allocated p + 1" and "totalHosts p' = totalHosts p"
proof -
  obtain P a4 k4 where n: "net_inv P a4 k4 p" and m: "map_inv p" using assms(1) by (auto simp: pool_inv_def)
  from AllocateIP_spec[OF n] assms(2)
  obtain x4 where x: "\<not> isSet (allocated p) (dotted x4)"
    "p' = p\<lparr>allocated := fmupd (dotted x4) True (allocated p)\<rparr>" by auto
  have "fmlookup (allocated p) (dotted x4) = None"
    using m x(1) by (intro not_isSet_dom) (simp_all add: map_inv_def)
  then have "dotted x4 |\<notin>| fmdom (allocated p)" by (simp add: fmdom_notI)
  then show "len_allocated p' = len_allocated p + 1"
    by (simp add: x(2) len_allocated_def fcard_finsert_if)
  show "totalHosts p' = totalHosts p" by (simp add: x(2))
qed

lemma ReleaseIP_len:
  assumes "ReleaseIP p ip = Inr p'"
  shows "len_allocated p' = len_allocated p - 1" and "totalHosts p' = totalHosts p"
proof -
  have s: "isSet (allocated p) ip" and p': "p' = p\<lparr>allocated := fmdrop ip (allocated p)\<rparr>"
    using assms by (auto simp: ReleaseIP_def split: option.splits if_splits)
  have "ip |\<in>| fmdom (allocated p)" using isSet_dom[OF s] by (rule fmdomI)
  then have "Suc (fcard (fmdom (allocated p) |-| {|ip|})) = fcard (fmdom (allocated p))"
    by (rule fcard_Suc_fminus1)
  then have "int (fcard (fmdom (allocated p) |-| {|ip|})) = int (fcard (fmdom (allocated p))) - 1"
    by linarith
  then show "len_allocated p' = len_allocated p - 1" by (simp add: p' len_allocated_def del: fcard_fminus_finsert)
  show "totalHosts p' = totalHosts p" by (simp add: p')
qed

lemma allocateN_len:
  "pool_inv p \<Longrightarrow> allocateN n p = Some (map Inr ips, p1) \<Longrightarrow>
   len_allocated p1 = len_allocated p + int (length ips) \<and> totalHosts p1 = totalHosts p"
proof (induction n arbitrary: p ips)
  case 0
  then show ?case by simp
next
  case (Suc n)
  from Suc.prems(2) obtain r p' rs where
    a: "AllocateIP p = Some (r, p')" and b: "allocateN n p' = Some (rs, p1)" and c: "map Inr ips = r # rs"
    by (auto split: option.splits)
  from c obtain ip ips' where ips: "ips = ip # ips'" "r = Inr ip" "rs = map Inr ips'" by (cases ips) auto
  have i: "pool_inv p'" by (rule AllocateIP_inv[OF Suc.prems(1) a])
  have "len_allocated p1 = len_allocated p' + int (length ips') \<and> totalHosts p1 = totalHosts p'"
    using Suc.IH[OF i] b ips(3) by simp
  then show ?case using AllocateIP_len[OF Suc.prems(1), of ip p'] a ips by simp
qed

lemma releaseAll_len:
  "releaseAll rs p1 = Inr p2 \<Longrightarrow>
   len_allocated p2 = len_allocated p1 - int (length rs) \<and> totalHosts p2 = totalHosts p1"
proof (induction rs arbitrary: p1)
  case Nil
  then show ?case by simp
next
  case (Cons r rs)
  from Cons.prems obtain p' where a: "ReleaseIP p1 r = Inr p'" and b: "releaseAll rs p' = Inr p2"
    by (auto split: sum.splits)
  show ?case using Cons.IH[OF b] ReleaseIP_len[OF a] by simp
qed

text \<open>
  Claim C5.  From any reachable pool state, after \<open>n\<close> calls of \<open>AllocateIP\<close> that all succeed
  and a successful \<open>ReleaseIP\<close> of each of the returned addresses, in any order, the available
  count is what it was before the allocations.
\<close>

theorem C5_allocate_release_count:
  assumes "reachable p"
    and "allocateN n p = Some (map Inr ips, p1)"
    and "mset rs = mset ips"
    and "releaseAll rs p1 = Inr p2"
  shows "GetAvailableCount p2 = GetAvailableCount p"
proof -
  have l: "length rs = length ips" using assms(3) by (metis size_mset)
  show ?thesis
    using allocateN_len[OF reachable_inv[OF assms(1)] assms(2)] releaseAll_len[OF assms(4)] l
    by (simp add: GetAvailableCount_def Let_def)
qed

lemma ex_parse_ip:
  "ParseIP ''10.0.0.2'' = Some (v4InV6Prefix @ [10, 0, 0, 2])"
  "ParseIP ''10.0.0.3'' = Some (v4InV6Prefix @ [10, 0, 0, 3])"
  using ParseIP_dotted[of "[10, 0, 0, 2]"] ParseIP_dotted[of "[10, 0, 0, 3]"] ex_strs(1,2)
  by (simp_all add: String_ip_def To4_def)

lemma ex_upt4: "[0 ..< 4] = [0, 1, 2, 3]"
  by (simp add: upt_rec)

lemma ex_contains:
  "Contains (ipNet pool29) (v4InV6Prefix @ [10, 0, 0, 2])"
  "Contains (ipNet pool29) (v4InV6Prefix @ [10, 0, 0, 3])"
  by (simp_all add: Contains_def networkNumberAndMask_def To4_def pool29_def v4InV6Prefix_def ex_upt4)

lemma ex_alloc2:
  "allocateN 2 pool29 = Some (map Inr [''10.0.0.2'', ''10.0.0.3''],
     pool29\<lparr>allocated := fmupd ''10.0.0.3'' True (fmupd ''10.0.0.2'' True (fmupd ''10.0.0.1'' True fmempty))\<rparr>)"
  apply (subst ex_pool29_upd)
  apply (simp add: eval_nat_numeral ex_AllocateIP scan_end scan_hit scan_skip ex_strs ex_incs ex_neqs isSet_def)
  done

lemma ex_release2:
  "releaseAll [''10.0.0.3'', ''10.0.0.2'']
     (pool29\<lparr>allocated := fmupd ''10.0.0.3'' True (fmupd ''10.0.0.2'' True (fmupd ''10.0.0.1'' True fmempty))\<rparr>)
   = Inr (pool29\<lparr>allocated := fmdrop ''10.0.0.2'' (fmdrop ''10.0.0.3''
        (fmupd ''10.0.0.3'' True (fmupd ''10.0.0.2'' True (fmupd ''10.0.0.1'' True fmempty))))\<rparr>)"
  using ex_contains by (simp add: ReleaseIP_def ex_parse_ip isSet_def pool29_def)

theorem C5_witness:
  "reachable pool29 \<and>
   allocateN 2 pool29 = Some (map Inr [''10.0.0.2'', ''10.0.0.3''],
     pool29\<lparr>allocated := fmupd ''10.0.0.3'' True (fmupd ''10.0.0.2'' True (fmupd ''10.0.0.1'' True fmempty))\<rparr>) \<and>
   mset [''10.0.0.3'', ''10.0.0.2''] = mset [''10.0.0.2'', ''10.0.0.3''] \<and>
   releaseAll [''10.0.0.3'', ''10.0.0.2'']
     (pool29\<lparr>allocated := fmupd ''10.0.0.3'' True (fmupd ''10.0.0.2'' True (fmupd ''10.0.0.1'' True fmempty))\<rparr>)
   = Inr (pool29\<lparr>allocated := fmdrop ''10.0.0.2'' (fmdrop ''10.0.0.3''
        (fmupd ''10.0.0.3'' True (fmupd ''10.0.0.2'' True (fmupd ''10.0.0.1'' True fmempty))))\<rparr>) \<and>
   GetAvailableCount (pool29\<lparr>allocated := fmdrop ''10.0.0.2'' (fmdrop ''10.0.0.3''
        (fmupd ''10.0.0.3'' True (fmupd ''10.0.0.2'' True (fmupd ''10.0.0.1'' True fmempty))))\<rparr>)
   = GetAvailableCount pool29"
proof -
  have m: "mset [''10.0.0.3'', ''10.0.0.2''] = mset [''10.0.0.2'', ''10.0.0.3'']" by simp
  show ?thesis
    using C5_allocate_release_count[OF ex_reachable ex_alloc2 m ex_release2] ex_reachable ex_alloc2 m ex_release2
    by (intro conjI)
qed

subsection \<open>Other spellings of an address\<close>

lemma ex_scan_ffff:
  "scanHex 0 0 (CHR ''f'' # CHR ''f'' # CHR ''f'' # CHR ''f'' # CHR '':'' # s) =
   Some (4, 65535, CHR '':'' # s)"
  by (simp add: hexVal_def)

lemma ex_scan_10: "scanHex 0 0 (CHR ''1'' # CHR ''0'' # CHR ''.'' # s) = Some (2, 16, CHR ''.'' # s)"
  by (simp add: hexVal_def)

lemma ex_mapped_loop:
  assumes "parseIPv4 (CHR ''1'' # CHR ''0'' # CHR ''.'' # s) = Some v4"
  shows "parseIPv6Loop [] (Some 0)
           (CHR ''f'' # CHR ''f'' # CHR ''f'' # CHR ''f'' # CHR '':'' # CHR ''1'' # CHR ''0'' # CHR ''.'' # s) =
         Some ([0xff, 0xff] @ v4, Some 0, [])"
proof -
  have a: "parseIPv6Loop [0xff, 0xff] (Some 0) (CHR ''1'' # CHR ''0'' # CHR ''.'' # s) =
           Some ([0xff, 0xff] @ v4, Some 0, [])"
    by (subst parseIPv6Loop.simps) (simp add: ex_scan_10 assms del: scanHex.simps)
  have f: "(65535 :: byte) = 255" by simp
  show ?thesis
    by (subst parseIPv6Loop.simps) (simp add: ex_scan_ffff a f del: scanHex.simps)
qed

lemma ex_ffff: "[of_nat (65535 div 256), of_nat 65535] = [0xff, 0xff :: byte]"
  by simp

lemma ex_mapped:
  assumes "parseIPv4 (CHR ''1'' # CHR ''0'' # CHR ''.'' # s) = Some v4" and "length v4 = 4"
    and "CHR ''%'' \<notin> set s"
  shows "ParseIP (CHR '':'' # CHR '':'' # CHR ''f'' # CHR ''f'' # CHR ''f'' # CHR ''f'' # CHR '':'' #
                  CHR ''1'' # CHR ''0'' # CHR ''.'' # s) = Some (v4InV6Prefix @ v4)"
  using assms(2,3)
  by (simp add: ParseIP_def parseAddr_def parseIPv6_def ex_mapped_loop[OF assms(1)]
      v4InV6Prefix_def eval_nat_numeral)

lemma ex_parse4s:
  "parseIPv4 ''10.0.0.0'' = Some [10, 0, 0, 0]"
  "parseIPv4 ''10.0.0.1'' = Some [10, 0, 0, 1]"
  "parseIPv4 ''10.0.0.2'' = Some [10, 0, 0, 2]"
  "parseIPv4 ''10.0.0.3'' = Some [10, 0, 0, 3]"
  "parseIPv4 ''10.0.0.4'' = Some [10, 0, 0, 4]"
  "parseIPv4 ''10.0.0.5'' = Some [10, 0, 0, 5]"
  "parseIPv4 ''10.0.0.6'' = Some [10, 0, 0, 6]"
  "parseIPv4 ''10.0.0.7'' = Some [10, 0, 0, 7]"
  by (simp_all add: parseIPv4_def parseIPv4Fields.simps isDigit_def digitVal_def)

lemma ex_mapped_ips:
  "ParseIP ''::ffff:10.0.0.0'' = Some (v4InV6Prefix @ [10, 0, 0, 0])"
  "ParseIP ''::ffff:10.0.0.1'' = Some (v4InV6Prefix @ [10, 0, 0, 1])"
  "ParseIP ''::ffff:10.0.0.2'' = Some (v4InV6Prefix @ [10, 0, 0, 2])"
  "ParseIP ''::ffff:10.0.0.3'' = Some (v4InV6Prefix @ [10, 0, 0, 3])"
  "ParseIP ''::ffff:10.0.0.4'' = Some (v4InV6Prefix @ [10, 0, 0, 4])"
  "ParseIP ''::ffff:10.0.0.5'' = Some (v4InV6Prefix @ [10, 0, 0, 5])"
  "ParseIP ''::ffff:10.0.0.6'' = Some (v4InV6Prefix @ [10, 0, 0, 6])"
  "ParseIP ''::ffff:10.0.0.7'' = Some (v4InV6Prefix @ [10, 0, 0, 7])"
  using ex_mapped[OF ex_parse4s(1)] ex_mapped[OF ex_parse4s(2)] ex_mapped[OF ex_parse4s(3)]
    ex_mapped[OF ex_parse4s(4)] ex_mapped[OF ex_parse4s(5)] ex_mapped[OF ex_parse4s(6)]
    ex_mapped[OF ex_parse4s(7)] ex_mapped[OF ex_parse4s(8)]
  by simp_all

lemma ex_contains_all:
  "Contains (ipNet pool29) (v4InV6Prefix @ [10, 0, 0, 0])"
  "Contains (ipNet pool29) (v4InV6Prefix @ [10, 0, 0, 1])"
  "Contains (ipNet pool29) (v4InV6Prefix @ [10, 0, 0, 4])"
  "Contains (ipNet pool29) (v4InV6Prefix @ [10, 0, 0, 5])"
  "Contains (ipNet pool29) (v4InV6Prefix @ [10, 0, 0, 6])"
  "Contains (ipNet pool29) (v4InV6Prefix @ [10, 0, 0, 7])"
  by (simp_all add: Contains_def networkNumberAndMask_def To4_def pool29_def v4InV6Prefix_def ex_upt4)

fun allocateAll :: "string list \<Rightarrow> IPPool \<Rightarrow> PoolError + IPPool" where
  "allocateAll [] p = Inr p"
| "allocateAll (ip # ips) p =
     (case AllocateSpecificIP p ip of Inl e \<Rightarrow> Inl e | Inr p' \<Rightarrow> allocateAll ips p')"

lemma allocateAll_reachable: "reachable p \<Longrightarrow> allocateAll ips p = Inr p' \<Longrightarrow> reachable p'"
proof (induction ips arbitrary: p)
  case Nil
  then show ?case by simp
next
  case (Cons ip ips)
  from Cons.prems(2) obtain p1 where a: "AllocateSpecificIP p ip = Inr p1"
    and b: "allocateAll ips p1 = Inr p'"
    by (auto split: sum.splits)
  show ?case by (rule Cons.IH[OF reach_specific[OF Cons.prems(1) a] b])
qed

definition aliases29 :: "string list" where
  "aliases29 = [''::ffff:10.0.0.0'', ''::ffff:10.0.0.1'', ''::ffff:10.0.0.2'', ''::ffff:10.0.0.3'',
                ''::ffff:10.0.0.4'', ''::ffff:10.0.0.5'', ''::ffff:10.0.0.6'', ''::ffff:10.0.0.7'']"

definition poolAliases :: IPPool where
  "poolAliases = pool29\<lparr>allocated :=
     fmupd ''::ffff:10.0.0.7'' True (fmupd ''::ffff:10.0.0.6'' True (fmupd ''::ffff:10.0.0.5'' True
     (fmupd ''::ffff:10.0.0.4'' True (fmupd ''::ffff:10.0.0.3'' True (fmupd ''::ffff:10.0.0.2'' True
     (fmupd ''::ffff:10.0.0.1'' True (fmupd ''::ffff:10.0.0.0'' True
     (fmupd ''10.0.0.1'' True fmempty))))))))\<rparr>"

lemma ex_specific_alias:
  assumes "ParseIP ip = Some a" and "Contains (ipNet pool29) a"
    and "ip \<noteq> ''10.0.0.0''" and "ip \<noteq> ''10.0.0.7''" and "ip \<noteq> ''10.0.0.1''"
    and "\<not> isSet m ip"
  shows "AllocateSpecificIP (pool29\<lparr>allocated := m\<rparr>) ip =
         Inr (pool29\<lparr>allocated := fmupd ip True m\<rparr>)"
  using assms by (simp add: AllocateSpecificIP_def pool29_def)

lemma ex_aliases: "allocateAll aliases29 pool29 = Inr poolAliases"
proof -
  have c: "Contains (ipNet pool29) (v4InV6Prefix @ [10, 0, 0, 2])"
    "Contains (ipNet pool29) (v4InV6Prefix @ [10, 0, 0, 3])"
    by (rule ex_contains)+
  have p: "pool29 = pool29\<lparr>allocated := fmupd ''10.0.0.1'' True fmempty\<rparr>"
    by (simp add: pool29_def)
  show ?thesis
    apply (subst p)
    apply (simp add: aliases29_def poolAliases_def ex_specific_alias ex_mapped_ips
        ex_contains_all c isSet_def)
    done
qed

text \<open>A reserved address that was allocated under another spelling is released under it.\<close>

lemma ex_alias_release:
  "ReleaseIP (pool29\<lparr>allocated := fmupd ''::ffff:10.0.0.0'' True (fmupd ''10.0.0.1'' True fmempty)\<rparr>)
     ''::ffff:10.0.0.0'' = Inr pool29"
proof -
  have d: "fmdrop ''::ffff:10.0.0.0'' (fmupd ''::ffff:10.0.0.0'' True (fmupd ''10.0.0.1'' True fmempty)) =
           fmupd ''10.0.0.1'' True fmempty"
    by (rule fmap_ext) simp
  have c: "Contains \<lparr>IP = [10, 0, 0, 0], Mask = [255, 255, 255, 248]\<rparr> (v4InV6Prefix @ [10, 0, 0, 0])"
    using ex_contains_all(1) by (simp add: pool29_def)
  show ?thesis
    using c by (simp add: ReleaseIP_def ex_mapped_ips isSet_def d pool29_def)
qed

text \<open>
  Claim C10.  The sum of the available and the allocated count is the total in every state,
  by the arithmetic of \<open>GetAvailableCount\<close>, but the three reserved addresses are not
  counted as the claim says once a caller spells them differently.  \<open>AllocateSpecificIP\<close>
  compares the caller's string with the stored dotted-quad strings after it has parsed
  it, so the IPv4-mapped spellings \<open>::ffff:10.0.0.0\<close> to \<open>::ffff:10.0.0.7\<close> of all eight
  addresses of \<open>10.0.0.0/29\<close> pass its checks, the network, the broadcast and the server
  address among them.  After these eight calls on the new pool the allocated count is 9 of a
  total of 6 and the available count is -3: the server address counts twice, and the
  network and the broadcast address count as allocated.
\<close>

theorem C10_alias_counts:
  "AllocateSpecificIP pool29 ''::ffff:10.0.0.0'' =
     Inr (pool29\<lparr>allocated := fmupd ''::ffff:10.0.0.0'' True (fmupd ''10.0.0.1'' True fmempty)\<rparr>) \<and>
   allocateAll aliases29 pool29 = Inr poolAliases \<and>
   reachable poolAliases \<and>
   IsAllocated poolAliases ''10.0.0.1'' \<and>
   IsAllocated poolAliases ''::ffff:10.0.0.1'' \<and>
   IsAllocated poolAliases ''::ffff:10.0.0.0'' \<and>
   IsAllocated poolAliases ''::ffff:10.0.0.7'' \<and>
   GetTotalIPs poolAliases = 6 \<and>
   GetAllocatedCount poolAliases = 9 \<and>
   GetAvailableCount poolAliases = - 3 \<and>
   GetAvailableCount poolAliases + GetAllocatedCount poolAliases = GetTotalIPs poolAliases"
proof -
  have p: "pool29 = pool29\<lparr>allocated := fmupd ''10.0.0.1'' True fmempty\<rparr>"
    by (simp add: pool29_def)
  have a: "AllocateSpecificIP pool29 ''::ffff:10.0.0.0'' =
     Inr (pool29\<lparr>allocated := fmupd ''::ffff:10.0.0.0'' True (fmupd ''10.0.0.1'' True fmempty)\<rparr>)"
    by (subst p) (simp add: ex_specific_alias ex_mapped_ips ex_contains_all isSet_def)
  have r: "reachable poolAliases"
    by (rule allocateAll_reachable[OF ex_reachable ex_aliases])
  have i: "IsAllocated poolAliases ''10.0.0.1''" "IsAllocated poolAliases ''::ffff:10.0.0.1''"
    "IsAllocated poolAliases ''::ffff:10.0.0.0''" "IsAllocated poolAliases ''::ffff:10.0.0.7''"
    by (simp_all add: IsAllocated_def isSet_def poolAliases_def)
  have l: "len_allocated poolAliases = 9"
    by (simp add: len_allocated_def poolAliases_def fcard_finsert_if)
  have t: "totalHosts poolAliases = 6" by (simp add: poolAliases_def pool29_def)
  show ?thesis
    using a r i ex_aliases l t
    by (simp add: GetTotalIPs_def GetAllocatedCount_def GetAvailableCount_def)
qed

section \<open>The alert manager\<close>

text \<open>
  Times are nanosecond counts and durations are Go's \<open>int64\<close> nanoseconds; \<open>Time.Sub\<close>
  saturates at the ends of the \<open>int64\<close> range.  The clock is a parameter: every function
  that calls \<open>time.Now\<close> takes the time it reads.  A \<open>float64\<close> metric is a real number
  (the thresholds only compare them), an \<open>interface{}\<close> metadata value is a tagged value,
  and a description built by \<open>fmt.Sprintf\<close> is kept as its format string and arguments.
  The metrics are the five groups of \<open>ServerMetrics\<close> that the alert manager reads, with
  the fields it reads; the pointer to them is not nil, and no metric is NaN.  The mutex of
  the manager is left out: every function holds it from start to end.
\<close>

type_synonym Time = int
type_synonym Duration = int

definition maxDuration :: Duration where
  "maxDuration = 2 ^ 63 - 1"

definition minDuration :: Duration where
  "minDuration = - (2 ^ 63)"

definition time_Sub :: "Time \<Rightarrow> Time \<Rightarrow> Duration" where
  "time_Sub t u = (if t - u > maxDuration then maxDuration
                   else if t - u < minDuration then minDuration else t - u)"

definition Hour :: Duration where
  "Hour = 3600 * 1000000000"

datatype metaValue = VFloat real | VInt int | VBool bool | VDuration Duration | VTime Time

datatype descr = Lit string | Sprintf string "metaValue list"

datatype AlertType =
  AlertTypeSystem | AlertTypeNetwork | AlertTypeSecurity | AlertTypeConnection
  | AlertTypePerformance | AlertTypeApplication

datatype Severity = SeverityLow | SeverityMedium | SeverityHigh | SeverityCritical

datatype AlertStatus = AlertStatusActive | AlertStatusResolved | AlertStatusSuppressed

record Alert =
  ID :: string
  Type :: AlertType
  Severity :: Severity
  Title :: string
  Description :: descr
  CreatedAt :: Time
  UpdatedAt :: Time
  ResolvedAt :: "Time option"
  Status :: AlertStatus
  Metadata :: "(string, metaValue) fmap option"
  Count :: "64 word"

record AlertConfig =
  CPUThreshold :: real
  MemoryThreshold :: real
  DiskThreshold :: real
  ConnectionThreshold :: int
  ResponseTimeThreshold :: Duration
  ErrorRateThreshold :: real
  EnableAlerts :: bool
  AlertCooldown :: Duration
  NotificationChannels :: "string list"

record AlertManager =
  alerts :: "(string, Alert) fmap"
  config :: AlertConfig
  lastEvalTime :: Time

record SystemStats =
  CPUUsage :: real
  MemoryUsage :: real
  DiskUsage :: real

record NetworkStats =
  IPPoolUtilization :: real

record SecurityStats =
  FirewallEnabled :: bool
  FailedLogins :: int

record ConnectionStats =
  ActiveClients :: int

record PerformanceMetrics =
  ResponseTime :: Duration
  ErrorRate :: real

record ServerMetrics =
  SystemStats :: SystemStats
  NetworkStats :: NetworkStats
  SecurityStats :: SecurityStats
  ConnectionStats :: ConnectionStats
  Performance :: PerformanceMetrics

datatype AlertError = AlertNotFound string | AlertAlreadyResolved string

definition NewAlertManager :: "Time \<Rightarrow> AlertManager" where
  "NewAlertManager now =
     \<lparr>alerts = fmempty,
      config = \<lparr>CPUThreshold = 80, MemoryThreshold = 85, DiskThreshold = 90,
                ConnectionThreshold = 1000, ResponseTimeThreshold = 5 * 1000000000,
                ErrorRateThreshold = 5, EnableAlerts = True, AlertCooldown = 300 * 1000000000,
                NotificationChannels = [''log'']\<rparr>,
      lastEvalTime = now\<rparr>"

text \<open>Writing the entries of \<open>new\<close> into a metadata map, which is made first when it is nil.\<close>

definition mergeMetadata ::
  "(string, metaValue) fmap option \<Rightarrow> (string, metaValue) fmap option \<Rightarrow> (string, metaValue) fmap option" where
  "mergeMetadata old new =
     Some ((case old of None \<Rightarrow> fmempty | Some m \<Rightarrow> m) ++\<^sub>f (case new of None \<Rightarrow> fmempty | Some m \<Rightarrow> m))"

definition createOrUpdateAlert ::
  "string \<Rightarrow> AlertType \<Rightarrow> Severity \<Rightarrow> string \<Rightarrow> descr \<Rightarrow> Time \<Rightarrow>
   (string, metaValue) fmap option \<Rightarrow> AlertManager \<Rightarrow> AlertManager" where
  "createOrUpdateAlert aid alertType severity title description now metadata am =
     (case fmlookup (alerts am) aid of
        Some alert \<Rightarrow>
          am\<lparr>alerts := fmupd aid
               (alert\<lparr>UpdatedAt := now, Count := Count alert + 1,
                       Metadata := mergeMetadata (Metadata alert) metadata\<rparr>) (alerts am)\<rparr>
      | None \<Rightarrow>
          am\<lparr>alerts := fmupd aid
               \<lparr>ID = aid, Type = alertType, Severity = severity, Title = title,
                Description = description, CreatedAt = now, UpdatedAt = now, ResolvedAt = None,
                Status = AlertStatusActive, Metadata = metadata, Count = 1\<rparr> (alerts am)\<rparr>)"

definition resolveAlert :: "string \<Rightarrow> Time \<Rightarrow> AlertManager \<Rightarrow> AlertManager" where
  "resolveAlert aid now am =
     (case fmlookup (alerts am) aid of
        Some alert \<Rightarrow>
          if Status alert = AlertStatusActive
          then am\<lparr>alerts := fmupd aid
                 (alert\<lparr>Status := AlertStatusResolved, ResolvedAt := Some now, UpdatedAt := now\<rparr>) (alerts am)\<rparr>
          else am
      | None \<Rightarrow> am)"

definition evaluateSystemAlerts :: "SystemStats \<Rightarrow> Time \<Rightarrow> AlertManager \<Rightarrow> AlertManager" where
  "evaluateSystemAlerts stats now am0 =
     (let am1 =
        (if CPUUsage stats > CPUThreshold (config am0)
         then createOrUpdateAlert ''system_cpu_high'' AlertTypeSystem SeverityHigh ''High CPU Usage''
                (Sprintf ''CPU usage is %.1f%%, exceeding threshold of %.1f%%''
                   [VFloat (CPUUsage stats), VFloat (CPUThreshold (config am0))])
                now
                (Some (fmap_of_list [(''cpu_usage'', VFloat (CPUUsage stats)),
                                     (''threshold'', VFloat (CPUThreshold (config am0)))]))
                am0
         else resolveAlert ''system_cpu_high'' now am0);
          am2 =
        (if MemoryUsage stats > MemoryThreshold (config am1)
         then createOrUpdateAlert ''system_memory_high'' AlertTypeSystem SeverityHigh ''High Memory Usage''
                (Sprintf ''Memory usage is %.1f%%, exceeding threshold of %.1f%%''
                   [VFloat (MemoryUsage stats), VFloat (MemoryThreshold (config am1))])
                now
                (Some (fmap_of_list [(''memory_usage'', VFloat (MemoryUsage stats)),
                                     (''threshold'', VFloat (MemoryThreshold (config am1)))]))
                am1
         else resolveAlert ''system_memory_high'' now am1)
      in
        (if DiskUsage stats > DiskThreshold (config am2)
         then createOrUpdateAlert ''system_disk_high'' AlertTypeSystem SeverityCritical ''High Disk Usage''
                (Sprintf ''Disk usage is %.1f%%, exceeding threshold of %.1f%%''
                   [VFloat (DiskUsage stats), VFloat (DiskThreshold (config am2))])
                now
                (Some (fmap_of_list [(''disk_usage'', VFloat (DiskUsage stats)),
                                     (''threshold'', VFloat (DiskThreshold (config am2)))]))
                am2
         else resolveAlert ''system_disk_high'' now am2))"

definition evaluateNetworkAlerts :: "NetworkStats \<Rightarrow> Time \<Rightarrow> AlertManager \<Rightarrow> AlertManager" where
  "evaluateNetworkAlerts stats now am =
     (if IPPoolUtilization stats > 90
      then createOrUpdateAlert ''network_ip_pool_high'' AlertTypeNetwork
             (if IPPoolUtilization stats > 95 then SeverityHigh else SeverityMedium)
             ''High IP Pool Utilization''
             (Sprintf ''IP pool utilization is %.1f%%, nearing capacity'' [VFloat (IPPoolUtilization stats)])
             now
             (Some (fmap_of_list [(''utilization'', VFloat (IPPoolUtilization stats))]))
             am
      else resolveAlert ''network_ip_pool_high'' now am)"

definition evaluateSecurityAlerts :: "SecurityStats \<Rightarrow> Time \<Rightarrow> AlertManager \<Rightarrow> AlertManager" where
  "evaluateSecurityAlerts stats now am0 =
     (let am1 =
        (if \<not> FirewallEnabled stats
         then createOrUpdateAlert ''security_firewall_disabled'' AlertTypeSecurity SeverityCritical
                ''Firewall Disabled''
                (Lit ''The pfctl firewall is disabled, leaving the server vulnerable'')
                now
                (Some (fmap_of_list [(''firewall_enabled'', VBool (FirewallEnabled stats))]))
                am0
         else resolveAlert ''security_firewall_disabled'' now am0)
      in
        (if FailedLogins stats > 10
         then createOrUpdateAlert ''security_failed_logins'' AlertTypeSecurity SeverityMedium
                ''High Failed Login Attempts''
                (Sprintf ''Detected %d failed login attempts'' [VInt (FailedLogins stats)])
                now
                (Some (fmap_of_list [(''failed_logins'', VInt (FailedLogins stats))]))
                am1
         else resolveAlert ''security_failed_logins'' now am1))"

definition evaluateConnectionAlerts :: "ConnectionStats \<Rightarrow> Time \<Rightarrow> AlertManager \<Rightarrow> AlertManager" where
  "evaluateConnectionAlerts stats now am =
     (if ActiveClients stats > ConnectionThreshold (config am)
      then createOrUpdateAlert ''connection_high_count'' AlertTypeConnection SeverityMedium
             ''High Active Connection Count''
             (Sprintf ''Active connections (%d) exceed threshold (%d)''
                [VInt (ActiveClients stats), VInt (ConnectionThreshold (config am))])
             now
             (Some (fmap_of_list [(''active_clients'', VInt (ActiveClients stats)),
                                  (''threshold'', VInt (ConnectionThreshold (config am)))]))
             am
      else resolveAlert ''connection_high_count'' now am)"

definition evaluatePerformanceAlerts :: "PerformanceMetrics \<Rightarrow> Time \<Rightarrow> AlertManager \<Rightarrow> AlertManager" where
  "evaluatePerformanceAlerts stats now am0 =
     (let am1 =
        (if ResponseTime stats > ResponseTimeThreshold (config am0)
         then createOrUpdateAlert ''performance_response_time'' AlertTypePerformance SeverityMedium
                ''High Response Time''
                (Sprintf ''Response time (%v) exceeds threshold (%v)''
                   [VDuration (ResponseTime stats), VDuration (ResponseTimeThreshold (config am0))])
                now
                (Some (fmap_of_list [(''response_time'', VDuration (ResponseTime stats)),
                                     (''threshold'', VDuration (ResponseTimeThreshold (config am0)))]))
                am0
         else resolveAlert ''performance_response_time'' now am0)
      in
        (if ErrorRate stats > ErrorRateThreshold (config am1)
         then createOrUpdateAlert ''performance_error_rate'' AlertTypePerformance SeverityHigh
                ''High Error Rate''
                (Sprintf ''Error rate (%.1f%%) exceeds threshold (%.1f%%)''
                   [VFloat (ErrorRate stats), VFloat (ErrorRateThreshold (config am1))])
                now
                (Some (fmap_of_list [(''error_rate'', VFloat (ErrorRate stats)),
                                     (''threshold'', VFloat (ErrorRateThreshold (config am1)))]))
                am1
         else resolveAlert ''performance_error_rate'' now am1))"

text \<open>An alert that \<open>cleanupResolvedAlerts\<close> deletes: resolved more than 24 hours before \<open>now\<close>.\<close>

definition expired :: "Time \<Rightarrow> Alert \<Rightarrow> bool" where
  "expired now alert =
     (Status alert = AlertStatusResolved \<and>
      (case ResolvedAt alert of None \<Rightarrow> False | Some t \<Rightarrow> time_Sub now t > 24 * Hour))"

definition cleanupResolvedAlerts :: "Time \<Rightarrow> AlertManager \<Rightarrow> AlertManager" where
  "cleanupResolvedAlerts now am =
     am\<lparr>alerts := fmfilter (\<lambda>aid. case fmlookup (alerts am) aid of
                                    None \<Rightarrow> False
                                  | Some alert \<Rightarrow> \<not> expired now alert) (alerts am)\<rparr>"

definition EvaluateMetrics :: "ServerMetrics \<Rightarrow> Time \<Rightarrow> AlertManager \<Rightarrow> AlertManager" where
  "EvaluateMetrics metrics now am =
     (if \<not> EnableAlerts (config am) then am
      else cleanupResolvedAlerts now
             (evaluatePerformanceAlerts (Performance metrics) now
               (evaluateConnectionAlerts (ConnectionStats metrics) now
                 (evaluateSecurityAlerts (SecurityStats metrics) now
                   (evaluateNetworkAlerts (NetworkStats metrics) now
                     (evaluateSystemAlerts (SystemStats metrics) now
                       (am\<lparr>lastEvalTime := now\<rparr>)))))))"

text \<open>
  \<open>GetActiveAlerts\<close> and \<open>GetAllAlerts\<close> return copies of the alerts in the iteration order
  of a Go map, which is not fixed; the model returns them as a finite set.
\<close>

definition GetActiveAlerts :: "AlertManager \<Rightarrow> Alert fset" where
  "GetActiveAlerts am = ffilter (\<lambda>alert. Status alert = AlertStatusActive) (fmran (alerts am))"

definition GetAllAlerts :: "AlertManager \<Rightarrow> Time \<Rightarrow> Alert fset" where
  "GetAllAlerts am since = ffilter (\<lambda>alert. CreatedAt alert > since) (fmran (alerts am))"

definition ResolveAlert :: "AlertManager \<Rightarrow> string \<Rightarrow> Time \<Rightarrow> AlertError + AlertManager" where
  "ResolveAlert am alertID now =
     (case fmlookup (alerts am) alertID of
        None \<Rightarrow> Inl (AlertNotFound alertID)
      | Some alert \<Rightarrow>
          if Status alert = AlertStatusResolved then Inl (AlertAlreadyResolved alertID)
          else Inr (am\<lparr>alerts := fmupd alertID
                      (alert\<lparr>Status := AlertStatusResolved, ResolvedAt := Some now, UpdatedAt := now\<rparr>)
                      (alerts am)\<rparr>))"

text \<open>\<open>SuppressAlert\<close> reads the clock twice: \<open>now1\<close> for \<open>UpdatedAt\<close>, \<open>now2\<close> for the deadline.\<close>

definition SuppressAlert ::
  "AlertManager \<Rightarrow> string \<Rightarrow> Duration \<Rightarrow> Time \<Rightarrow> Time \<Rightarrow> AlertError + AlertManager" where
  "SuppressAlert am alertID duration now1 now2 =
     (case fmlookup (alerts am) alertID of
        None \<Rightarrow> Inl (AlertNotFound alertID)
      | Some alert \<Rightarrow>
          Inr (am\<lparr>alerts := fmupd alertID
                 (alert\<lparr>Status := AlertStatusSuppressed, UpdatedAt := now1,
                         Metadata := Some (fmupd ''suppressed_until'' (VTime (now2 + duration))
                                             (case Metadata alert of None \<Rightarrow> fmempty | Some m \<Rightarrow> m))\<rparr>)
                 (alerts am)\<rparr>))"

subsection \<open>The rules of an evaluation\<close>

text \<open>
  The nine threshold rules that \<open>EvaluateMetrics\<close> checks, in the order of the calls, read off
  \<open>evaluateSystemAlerts\<close> to \<open>evaluatePerformanceAlerts\<close>: the alert id, whether the condition
  holds on the metrics, and the arguments the rule gives to \<open>createOrUpdateAlert\<close>.
  \<open>applyRule\<close> is one rule as the specification words it; the functions above are compared
  with it below.
\<close>

record Rule =
  rid :: string
  holds :: bool
  rtype :: AlertType
  rseverity :: Severity
  rtitle :: string
  rdescription :: descr
  rmetadata :: "(string, metaValue) fmap option"

definition systemRules :: "SystemStats \<Rightarrow> AlertConfig \<Rightarrow> Rule list" where
  "systemRules stats c =
     [\<lparr>rid = ''system_cpu_high'', holds = (CPUUsage stats > CPUThreshold c),
       rtype = AlertTypeSystem, rseverity = SeverityHigh, rtitle = ''High CPU Usage'',
       rdescription = Sprintf ''CPU usage is %.1f%%, exceeding threshold of %.1f%%''
                        [VFloat (CPUUsage stats), VFloat (CPUThreshold c)],
       rmetadata = Some (fmap_of_list [(''cpu_usage'', VFloat (CPUUsage stats)),
                                       (''threshold'', VFloat (CPUThreshold c))])\<rparr>,
      \<lparr>rid = ''system_memory_high'', holds = (MemoryUsage stats > MemoryThreshold c),
       rtype = AlertTypeSystem, rseverity = SeverityHigh, rtitle = ''High Memory Usage'',
       rdescription = Sprintf ''Memory usage is %.1f%%, exceeding threshold of %.1f%%''
                        [VFloat (MemoryUsage stats), VFloat (MemoryThreshold c)],
       rmetadata = Some (fmap_of_list [(''memory_usage'', VFloat (MemoryUsage stats)),
                                       (''threshold'', VFloat (MemoryThreshold c))])\<rparr>,
      \<lparr>rid = ''system_disk_high'', holds = (DiskUsage stats > DiskThreshold c),
       rtype = AlertTypeSystem, rseverity = SeverityCritical, rtitle = ''High Disk Usage'',
       rdescription = Sprintf ''Disk usage is %.1f%%, exceeding threshold of %.1f%%''
                        [VFloat (DiskUsage stats), VFloat (DiskThreshold c)],
       rmetadata = Some (fmap_of_list [(''disk_usage'', VFloat (DiskUsage stats)),
                                       (''threshold'', VFloat (DiskThreshold c))])\<rparr>]"

definition networkRules :: "NetworkStats \<Rightarrow> Rule list" where
  "networkRules stats =
     [\<lparr>rid = ''network_ip_pool_high'', holds = (IPPoolUtilization stats > 90),
       rtype = AlertTypeNetwork,
       rseverity = (if IPPoolUtilization stats > 95 then SeverityHigh else SeverityMedium),
       rtitle = ''High IP Pool Utilization'',
       rdescription = Sprintf ''IP pool utilization is %.1f%%, nearing capacity''
                        [VFloat (IPPoolUtilization stats)],
       rmetadata = Some (fmap_of_list [(''utilization'', VFloat (IPPoolUtilization stats))])\<rparr>]"

definition securityRules :: "SecurityStats \<Rightarrow> Rule list" where
  "securityRules stats =
     [\<lparr>rid = ''security_firewall_disabled'', holds = (\<not> FirewallEnabled stats),
       rtype = AlertTypeSecurity, rseverity = SeverityCritical, rtitle = ''Firewall Disabled'',
       rdescription = Lit ''The pfctl firewall is disabled, leaving the server vulnerable'',
       rmetadata = Some (fmap_of_list [(''firewall_enabled'', VBool (FirewallEnabled stats))])\<rparr>,
      \<lparr>rid = ''security_failed_logins'', holds = (FailedLogins stats > 10),
       rtype = AlertTypeSecurity, rseverity = SeverityMedium,
       rtitle = ''High Failed Login Attempts'',
       rdescription = Sprintf ''Detected %d failed login attempts'' [VInt (FailedLogins stats)],
       rmetadata = Some (fmap_of_list [(''failed_logins'', VInt (FailedLogins stats))])\<rparr>]"

definition connectionRules :: "ConnectionStats \<Rightarrow> AlertConfig \<Rightarrow> Rule list" where
  "connectionRules stats c =
     [\<lparr>rid = ''connection_high_count'', holds = (ActiveClients stats > ConnectionThreshold c),
       rtype = AlertTypeConnection, rseverity = SeverityMedium,
       rtitle = ''High Active Connection Count'',
       rdescription = Sprintf ''Active connections (%d) exceed threshold (%d)''
                        [VInt (ActiveClients stats), VInt (ConnectionThreshold c)],
       rmetadata = Some (fmap_of_list [(''active_clients'', VInt (ActiveClients stats)),
                                       (''threshold'', VInt (ConnectionThreshold c))])\<rparr>]"

definition performanceRules :: "PerformanceMetrics \<Rightarrow> AlertConfig \<Rightarrow> Rule list" where
  "performanceRules stats c =
     [\<lparr>rid = ''performance_response_time'',
       holds = (ResponseTime stats > ResponseTimeThreshold c),
       rtype = AlertTypePerformance, rseverity = SeverityMedium, rtitle = ''High Response Time'',
       rdescription = Sprintf ''Response time (%v) exceeds threshold (%v)''
                        [VDuration (ResponseTime stats), VDuration (ResponseTimeThreshold c)],
       rmetadata = Some (fmap_of_list [(''response_time'', VDuration (ResponseTime stats)),
                                       (''threshold'', VDuration (ResponseTimeThreshold c))])\<rparr>,
      \<lparr>rid = ''performance_error_rate'', holds = (ErrorRate stats > ErrorRateThreshold c),
       rtype = AlertTypePerformance, rseverity = SeverityHigh, rtitle = ''High Error Rate'',
       rdescription = Sprintf ''Error rate (%.1f%%) exceeds threshold (%.1f%%)''
                        [VFloat (ErrorRate stats), VFloat (ErrorRateThreshold c)],
       rmetadata = Some (fmap_of_list [(''error_rate'', VFloat (ErrorRate stats)),
                                       (''threshold'', VFloat (ErrorRateThreshold c))])\<rparr>]"

definition rules :: "ServerMetrics \<Rightarrow> AlertConfig \<Rightarrow> Rule list" where
  "rules metrics c =
     systemRules (SystemStats metrics) c @ networkRules (NetworkStats metrics) @
     securityRules (SecurityStats metrics) @ connectionRules (ConnectionStats metrics) c @
     performanceRules (Performance metrics) c"

definition applyRule :: "Time \<Rightarrow> Rule \<Rightarrow> AlertManager \<Rightarrow> AlertManager" where
  "applyRule now r am =
     (if holds r
      then createOrUpdateAlert (rid r) (rtype r) (rseverity r) (rtitle r) (rdescription r) now
             (rmetadata r) am
      else resolveAlert (rid r) now am)"

text \<open>What one rule does to the alert stored under its id.\<close>

definition stepAlert :: "Time \<Rightarrow> Rule \<Rightarrow> Alert option \<Rightarrow> Alert option" where
  "stepAlert now r old =
     (case old of
        None \<Rightarrow>
          if holds r
          then Some \<lparr>ID = rid r, Type = rtype r, Severity = rseverity r, Title = rtitle r,
                     Description = rdescription r, CreatedAt = now, UpdatedAt = now,
                     ResolvedAt = None, Status = AlertStatusActive, Metadata = rmetadata r,
                     Count = 1\<rparr>
          else None
      | Some a \<Rightarrow>
          if holds r
          then Some (a\<lparr>UpdatedAt := now, Count := Count a + 1,
                       Metadata := mergeMetadata (Metadata a) (rmetadata r)\<rparr>)
          else if Status a = AlertStatusActive
          then Some (a\<lparr>Status := AlertStatusResolved, ResolvedAt := Some now, UpdatedAt := now\<rparr>)
          else Some a)"

text \<open>A sequence of evaluations, each with its metrics and the time it reads.\<close>

fun evaluateAll :: "(ServerMetrics \<times> Time) list \<Rightarrow> AlertManager \<Rightarrow> AlertManager" where
  "evaluateAll [] am = am"
| "evaluateAll ((metrics, now) # es) am = evaluateAll es (EvaluateMetrics metrics now am)"

lemma config_create [simp]:
  "config (createOrUpdateAlert aid ty sev ti de now md am) = config am"
  by (simp add: createOrUpdateAlert_def split: option.splits)

lemma config_resolve [simp]: "config (resolveAlert aid now am) = config am"
  by (simp add: resolveAlert_def split: option.splits)

lemma config_applyRule [simp]: "config (applyRule now r am) = config am"
  by (simp add: applyRule_def)

lemma config_foldl [simp]: "config (foldl (\<lambda>a r. applyRule now r a) am rs) = config am"
  by (induction rs arbitrary: am) simp_all

lemma step_eq:
  "(if c then createOrUpdateAlert i t s ti d now m am else resolveAlert i now am) =
   applyRule now \<lparr>rid = i, holds = c, rtype = t, rseverity = s, rtitle = ti, rdescription = d,
                   rmetadata = m\<rparr> am"
  by (simp add: applyRule_def)

lemma eval_system:
  "evaluateSystemAlerts stats now am =
   foldl (\<lambda>a r. applyRule now r a) am (systemRules stats (config am))"
  by (simp only: evaluateSystemAlerts_def Let_def step_eq config_applyRule systemRules_def
      foldl.simps)

lemma eval_network:
  "evaluateNetworkAlerts stats now am = foldl (\<lambda>a r. applyRule now r a) am (networkRules stats)"
  by (simp only: evaluateNetworkAlerts_def step_eq networkRules_def foldl.simps)

lemma eval_security:
  "evaluateSecurityAlerts stats now am = foldl (\<lambda>a r. applyRule now r a) am (securityRules stats)"
  by (simp only: evaluateSecurityAlerts_def Let_def step_eq securityRules_def foldl.simps)

lemma eval_connection:
  "evaluateConnectionAlerts stats now am =
   foldl (\<lambda>a r. applyRule now r a) am (connectionRules stats (config am))"
  by (simp only: evaluateConnectionAlerts_def step_eq connectionRules_def foldl.simps)

lemma eval_performance:
  "evaluatePerformanceAlerts stats now am =
   foldl (\<lambda>a r. applyRule now r a) am (performanceRules stats (config am))"
  by (simp only: evaluatePerformanceAlerts_def Let_def step_eq config_applyRule
      performanceRules_def foldl.simps)

lemma EvaluateMetrics_rules:
  assumes "EnableAlerts (config am)"
  shows "EvaluateMetrics metrics now am =
         cleanupResolvedAlerts now
           (foldl (\<lambda>a r. applyRule now r a) (am\<lparr>lastEvalTime := now\<rparr>) (rules metrics (config am)))"
proof -
  let ?f = "\<lambda>a r. applyRule now r a"
  let ?a0 = "am\<lparr>lastEvalTime := now\<rparr>"
  have c0: "config ?a0 = config am" by simp
  define a1 where "a1 = foldl ?f ?a0 (systemRules (SystemStats metrics) (config am))"
  define a2 where "a2 = foldl ?f a1 (networkRules (NetworkStats metrics))"
  define a3 where "a3 = foldl ?f a2 (securityRules (SecurityStats metrics))"
  define a4 where "a4 = foldl ?f a3 (connectionRules (ConnectionStats metrics) (config am))"
  define a5 where "a5 = foldl ?f a4 (performanceRules (Performance metrics) (config am))"
  have c: "config a1 = config am" "config a2 = config am" "config a3 = config am"
    "config a4 = config am"
    by (simp_all add: a1_def a2_def a3_def a4_def)
  have e1: "evaluateSystemAlerts (SystemStats metrics) now ?a0 = a1"
    by (simp only: eval_system c0 a1_def)
  have e2: "evaluateNetworkAlerts (NetworkStats metrics) now a1 = a2"
    by (simp only: eval_network a2_def)
  have e3: "evaluateSecurityAlerts (SecurityStats metrics) now a2 = a3"
    by (simp only: eval_security a3_def)
  have e4: "evaluateConnectionAlerts (ConnectionStats metrics) now a3 = a4"
    by (simp only: eval_connection c a4_def)
  have e5: "evaluatePerformanceAlerts (Performance metrics) now a4 = a5"
    by (simp only: eval_performance c a5_def)
  have l: "EvaluateMetrics metrics now am = cleanupResolvedAlerts now a5"
    using assms by (simp only: EvaluateMetrics_def e1 e2 e3 e4 e5) simp
  have r: "foldl ?f ?a0 (rules metrics (config am)) = a5"
    by (simp only: rules_def foldl_append a1_def a2_def a3_def a4_def a5_def)
  show ?thesis by (simp only: l r)
qed

lemma applyRule_lookup:
  "fmlookup (alerts (applyRule now r am)) k =
   (if k = rid r then stepAlert now r (fmlookup (alerts am) k) else fmlookup (alerts am) k)"
  by (simp add: applyRule_def stepAlert_def createOrUpdateAlert_def resolveAlert_def
      split: option.splits)

lemma foldl_lookup_other:
  "k \<notin> rid ` set rs \<Longrightarrow>
   fmlookup (alerts (foldl (\<lambda>a r. applyRule now r a) am rs)) k = fmlookup (alerts am) k"
  by (induction rs arbitrary: am) (simp_all add: applyRule_lookup)

lemma foldl_lookup_rule:
  "distinct (map rid rs) \<Longrightarrow> r \<in> set rs \<Longrightarrow>
   fmlookup (alerts (foldl (\<lambda>a r. applyRule now r a) am rs)) (rid r) =
   stepAlert now r (fmlookup (alerts am) (rid r))"
proof (induction rs arbitrary: am)
  case Nil
  then show ?case by simp
next
  case (Cons x xs)
  show ?case
  proof (cases "r = x")
    case True
    have "rid r \<notin> rid ` set xs" using Cons.prems(1) True by simp
    then show ?thesis using True by (simp add: foldl_lookup_other applyRule_lookup)
  next
    case False
    then have m: "r \<in> set xs" and d: "distinct (map rid xs)"
      using Cons.prems by auto
    have "rid x \<notin> rid ` set xs" using Cons.prems(1) by simp
    then have n: "rid r \<noteq> rid x" using m by (metis imageI)
    show ?thesis using Cons.IH[OF d m] n by (simp add: applyRule_lookup)
  qed
qed

lemma rules_distinct: "distinct (map rid (rules metrics c))"
  by (simp add: rules_def systemRules_def networkRules_def securityRules_def
      connectionRules_def performanceRules_def)

lemma cleanup_lookup:
  "fmlookup (alerts (cleanupResolvedAlerts now am)) k =
   (case fmlookup (alerts am) k of
      None \<Rightarrow> None
    | Some a \<Rightarrow> if expired now a then None else Some a)"
  by (simp add: cleanupResolvedAlerts_def split: option.splits)

lemma time_Sub_self: "time_Sub t t = 0"
  by (simp add: time_Sub_def maxDuration_def minDuration_def)

lemma EvaluateMetrics_lookup_rule:
  assumes "EnableAlerts (config am)" and "r \<in> set (rules metrics (config am))"
  shows "fmlookup (alerts (EvaluateMetrics metrics now am)) (rid r) =
         (case stepAlert now r (fmlookup (alerts am) (rid r)) of
            None \<Rightarrow> None
          | Some a \<Rightarrow> if expired now a then None else Some a)"
  by (simp add: EvaluateMetrics_rules[OF assms(1)] cleanup_lookup
      foldl_lookup_rule[OF rules_distinct assms(2)])

lemma EvaluateMetrics_lookup_other:
  assumes "k \<notin> rid ` set (rules metrics (config am))"
  shows "fmlookup (alerts (EvaluateMetrics metrics now am)) k =
         (if EnableAlerts (config am)
          then (case fmlookup (alerts am) k of
                  None \<Rightarrow> None
                | Some a \<Rightarrow> if expired now a then None else Some a)
          else fmlookup (alerts am) k)"
proof (cases "EnableAlerts (config am)")
  case True
  show ?thesis
    by (simp add: True EvaluateMetrics_rules[OF True] cleanup_lookup foldl_lookup_other[OF assms])
next
  case False
  then show ?thesis by (simp add: EvaluateMetrics_def)
qed

subsection \<open>Examples\<close>

definition metricsHighCPU :: ServerMetrics where
  "metricsHighCPU =
     \<lparr>SystemStats = \<lparr>CPUUsage = 90, MemoryUsage = 50, DiskUsage = 50\<rparr>,
      NetworkStats = \<lparr>IPPoolUtilization = 10\<rparr>,
      SecurityStats = \<lparr>FirewallEnabled = True, FailedLogins = 0\<rparr>,
      ConnectionStats = \<lparr>ActiveClients = 5\<rparr>,
      Performance = \<lparr>ResponseTime = 1000000, ErrorRate = 1\<rparr>\<rparr>"

definition metricsCalm :: ServerMetrics where
  "metricsCalm = metricsHighCPU\<lparr>SystemStats := \<lparr>CPUUsage = 10, MemoryUsage = 50, DiskUsage = 50\<rparr>\<rparr>"

definition ruleCPU :: "real \<Rightarrow> Rule" where
  "ruleCPU u =
     \<lparr>rid = ''system_cpu_high'', holds = (u > 80),
      rtype = AlertTypeSystem, rseverity = SeverityHigh, rtitle = ''High CPU Usage'',
      rdescription = Sprintf ''CPU usage is %.1f%%, exceeding threshold of %.1f%%''
                       [VFloat u, VFloat 80],
      rmetadata = Some (fmap_of_list [(''cpu_usage'', VFloat u), (''threshold'', VFloat 80)])\<rparr>"

definition alertCPU :: Alert where
  "alertCPU =
     \<lparr>ID = ''system_cpu_high'', Type = AlertTypeSystem, Severity = SeverityHigh,
      Title = ''High CPU Usage'',
      Description = Sprintf ''CPU usage is %.1f%%, exceeding threshold of %.1f%%''
                      [VFloat 90, VFloat 80],
      CreatedAt = 100, UpdatedAt = 100, ResolvedAt = None, Status = AlertStatusActive,
      Metadata = Some (fmap_of_list [(''cpu_usage'', VFloat 90), (''threshold'', VFloat 80)]),
      Count = 1\<rparr>"

definition amCPU :: AlertManager where
  "amCPU = (NewAlertManager 0)\<lparr>alerts := fmupd ''system_cpu_high'' alertCPU fmempty,
                               lastEvalTime := 100\<rparr>"

definition amDisabled :: AlertManager where
  "amDisabled = (NewAlertManager 0)\<lparr>config := (config (NewAlertManager 0))\<lparr>EnableAlerts := False\<rparr>\<rparr>"

lemma ex_rule_high: "ruleCPU 90 \<in> set (rules metricsHighCPU (config (NewAlertManager 0)))"
  by (simp add: ruleCPU_def rules_def systemRules_def metricsHighCPU_def NewAlertManager_def)

lemma ex_rule_calm: "ruleCPU 10 \<in> set (rules metricsCalm (config (NewAlertManager 0)))"
  by (simp add: ruleCPU_def rules_def systemRules_def metricsCalm_def metricsHighCPU_def
      NewAlertManager_def)

lemma ex_config: "config amCPU = config (NewAlertManager 0)" "EnableAlerts (config amCPU)"
  "EnableAlerts (config (NewAlertManager 0))" "\<not> EnableAlerts (config amDisabled)"
  by (simp_all add: amCPU_def amDisabled_def NewAlertManager_def)

lemma ex_lookup: "fmlookup (alerts amCPU) ''system_cpu_high'' = Some alertCPU"
  "fmlookup (alerts (NewAlertManager 0)) ''system_cpu_high'' = None"
  "fmlookup (alerts amDisabled) ''system_cpu_high'' = None"
  by (simp_all add: amCPU_def amDisabled_def NewAlertManager_def)

lemma ex_first_evaluation:
  "fmlookup (alerts (EvaluateMetrics metricsHighCPU 100 (NewAlertManager 0))) ''system_cpu_high'' =
   Some alertCPU"
  using EvaluateMetrics_lookup_rule[OF ex_config(3) ex_rule_high, of 100]
  by (simp add: ex_lookup stepAlert_def expired_def ruleCPU_def alertCPU_def)

text \<open>
  An alert that was resolved more than 24 hours ago and whose condition holds again is
  updated by its rule, stays resolved, and is deleted by the cleanup of the same evaluation.
\<close>

lemma ex_retrigger_deleted:
  "fmlookup (alerts (EvaluateMetrics metricsHighCPU (200 + 25 * Hour)
      (amCPU\<lparr>alerts := fmupd ''system_cpu_high''
                (alertCPU\<lparr>Status := AlertStatusResolved, ResolvedAt := Some 200\<rparr>) fmempty\<rparr>)))
     ''system_cpu_high'' = None"
proof -
  let ?am = "amCPU\<lparr>alerts := fmupd ''system_cpu_high''
                (alertCPU\<lparr>Status := AlertStatusResolved, ResolvedAt := Some 200\<rparr>) fmempty\<rparr>"
  have c: "config ?am = config (NewAlertManager 0)" by (simp add: ex_config)
  have e: "EnableAlerts (config ?am)" by (simp add: ex_config)
  have r: "ruleCPU 90 \<in> set (rules metricsHighCPU (config ?am))"
    unfolding c by (rule ex_rule_high)
  show ?thesis
    using EvaluateMetrics_lookup_rule[OF e r, of "200 + 25 * Hour"]
    by (simp add: stepAlert_def expired_def ruleCPU_def alertCPU_def time_Sub_def Hour_def
        maxDuration_def minDuration_def)
qed

subsection \<open>Suppressed alerts\<close>

lemma suppressed_kept:
  assumes "fmlookup (alerts am) k = Some a" and "Status a = AlertStatusSuppressed"
  shows "\<exists>a'. fmlookup (alerts (EvaluateMetrics metrics now am)) k = Some a' \<and>
              Status a' = AlertStatusSuppressed"
proof (cases "EnableAlerts (config am)")
  case False
  then show ?thesis using assms by (simp add: EvaluateMetrics_def)
next
  case True
  have ne: "\<not> expired now a" using assms(2) by (simp add: expired_def)
  show ?thesis
  proof (cases "k \<in> rid ` set (rules metrics (config am))")
    case False
    show ?thesis
      using EvaluateMetrics_lookup_other[OF False, of now] True assms ne by simp
  next
    case in_rules: True
    then obtain r where r: "r \<in> set (rules metrics (config am))" and k: "k = rid r" by auto
    show ?thesis
      using EvaluateMetrics_lookup_rule[OF True r, of now] assms
      by (simp add: k stepAlert_def expired_def)
  qed
qed

lemma suppressed_kept_all:
  assumes "fmlookup (alerts am) k = Some a" and "Status a = AlertStatusSuppressed"
  shows "\<exists>a'. fmlookup (alerts (evaluateAll es am)) k = Some a' \<and>
              Status a' = AlertStatusSuppressed"
  using assms
proof (induction es arbitrary: am a)
  case Nil
  then show ?case by simp
next
  case (Cons e es)
  obtain metrics now where e: "e = (metrics, now)" by (cases e) auto
  obtain a' where "fmlookup (alerts (EvaluateMetrics metrics now am)) k = Some a'"
    "Status a' = AlertStatusSuppressed"
    using suppressed_kept[OF Cons.prems] by blast
  then show ?case using Cons.IH e by simp
qed

lemma active_status: "x |\<in>| GetActiveAlerts am \<Longrightarrow> Status x = AlertStatusActive"
  by (simp add: GetActiveAlerts_def)

lemma all_alerts_member:
  "fmlookup (alerts am) k = Some a \<Longrightarrow> since < CreatedAt a \<Longrightarrow> a |\<in>| GetAllAlerts am since"
  by (simp add: GetAllAlerts_def fmranI)

text \<open>
  Claim C6, amended.  \<open>EvaluateMetrics\<close> does nothing when the configuration has alerts
  disabled.  When they are enabled, for every rule: if no alert is stored under the rule's id,
  a holding condition inserts a new active alert with count 1 and a failing one inserts
  nothing; if an alert is stored and the condition holds, its count is incremented, its
  update time is set to the evaluation time and the rule's metadata is merged into its
  metadata, with its status left as it is, unless the alert was resolved more than 24 hours
  before the evaluation time, in which case the cleanup at the end of the evaluation
  deletes it; if the condition does not hold and the alert is active, it becomes resolved
  with the evaluation time as resolution time; an alert that is not active is left as it is,
  or deleted by the cleanup when it was resolved more than 24 hours before.
\<close>

theorem C6_evaluate_rules:
  "(\<not> EnableAlerts (config am) \<longrightarrow> EvaluateMetrics metrics now am = am) \<and>
   (EnableAlerts (config am) \<longrightarrow>
    (\<forall>r \<in> set (rules metrics (config am)).
       fmlookup (alerts (EvaluateMetrics metrics now am)) (rid r) =
       (case fmlookup (alerts am) (rid r) of
          None \<Rightarrow>
            if holds r
            then Some \<lparr>ID = rid r, Type = rtype r, Severity = rseverity r, Title = rtitle r,
                       Description = rdescription r, CreatedAt = now, UpdatedAt = now,
                       ResolvedAt = None, Status = AlertStatusActive, Metadata = rmetadata r,
                       Count = 1\<rparr>
            else None
        | Some a \<Rightarrow>
            if holds r
            then (if expired now a then None
                  else Some (a\<lparr>UpdatedAt := now, Count := Count a + 1,
                               Metadata := mergeMetadata (Metadata a) (rmetadata r)\<rparr>))
            else if Status a = AlertStatusActive
            then Some (a\<lparr>Status := AlertStatusResolved, ResolvedAt := Some now,
                         UpdatedAt := now\<rparr>)
            else if expired now a then None else Some a)))"
proof (intro conjI impI ballI)
  assume "\<not> EnableAlerts (config am)"
  then show "EvaluateMetrics metrics now am = am" by (simp add: EvaluateMetrics_def)
next
  fix r
  assume e: "EnableAlerts (config am)" and r: "r \<in> set (rules metrics (config am))"
  have z: "\<not> (0::int) > 24 * Hour" by (simp add: Hour_def)
  show "fmlookup (alerts (EvaluateMetrics metrics now am)) (rid r) =
       (case fmlookup (alerts am) (rid r) of
          None \<Rightarrow>
            if holds r
            then Some \<lparr>ID = rid r, Type = rtype r, Severity = rseverity r, Title = rtitle r,
                       Description = rdescription r, CreatedAt = now, UpdatedAt = now,
                       ResolvedAt = None, Status = AlertStatusActive, Metadata = rmetadata r,
                       Count = 1\<rparr>
            else None
        | Some a \<Rightarrow>
            if holds r
            then (if expired now a then None
                  else Some (a\<lparr>UpdatedAt := now, Count := Count a + 1,
                               Metadata := mergeMetadata (Metadata a) (rmetadata r)\<rparr>))
            else if Status a = AlertStatusActive
            then Some (a\<lparr>Status := AlertStatusResolved, ResolvedAt := Some now,
                         UpdatedAt := now\<rparr>)
            else if expired now a then None else Some a)"
    unfolding EvaluateMetrics_lookup_rule[OF e r]
    using z by (simp add: stepAlert_def expired_def time_Sub_self split: option.splits)
qed

theorem C6_witness:
  "\<not> EnableAlerts (config amDisabled) \<and>
   EvaluateMetrics metricsHighCPU 100 amDisabled = amDisabled \<and>
   EnableAlerts (config (NewAlertManager 0)) \<and>
   ruleCPU 90 \<in> set (rules metricsHighCPU (config (NewAlertManager 0))) \<and>
   fmlookup (alerts (EvaluateMetrics metricsHighCPU 100 (NewAlertManager 0)))
     ''system_cpu_high'' = Some alertCPU \<and>
   fmlookup (alerts (EvaluateMetrics metricsHighCPU 200 amCPU)) ''system_cpu_high'' =
     Some (alertCPU\<lparr>UpdatedAt := 200, Count := 2\<rparr>) \<and>
   fmlookup (alerts (EvaluateMetrics metricsCalm 200 amCPU)) ''system_cpu_high'' =
     Some (alertCPU\<lparr>Status := AlertStatusResolved, ResolvedAt := Some 200, UpdatedAt := 200\<rparr>)"
proof -
  have a: "fmlookup (alerts (EvaluateMetrics metricsHighCPU 100 (NewAlertManager 0)))
             ''system_cpu_high'' = Some alertCPU"
    using C6_evaluate_rules[of "NewAlertManager 0" metricsHighCPU 100, THEN conjunct2, THEN mp,
        OF ex_config(3), THEN bspec, OF ex_rule_high]
    by (simp add: ex_lookup ruleCPU_def alertCPU_def)
  have r2: "ruleCPU 90 \<in> set (rules metricsHighCPU (config amCPU))"
    "ruleCPU 10 \<in> set (rules metricsCalm (config amCPU))"
    using ex_rule_high ex_rule_calm by (simp_all add: ex_config)
  have m: "mergeMetadata (Metadata alertCPU) (rmetadata (ruleCPU 90)) = Metadata alertCPU"
    by (simp add: mergeMetadata_def alertCPU_def ruleCPU_def)
  have b: "fmlookup (alerts (EvaluateMetrics metricsHighCPU 200 amCPU)) ''system_cpu_high'' =
             Some (alertCPU\<lparr>UpdatedAt := 200, Count := 2\<rparr>)"
    using C6_evaluate_rules[of amCPU metricsHighCPU 200, THEN conjunct2, THEN mp,
        OF ex_config(2), THEN bspec, OF r2(1)] m
    by (simp add: ex_lookup ruleCPU_def expired_def alertCPU_def)
  have c: "fmlookup (alerts (EvaluateMetrics metricsCalm 200 amCPU)) ''system_cpu_high'' =
             Some (alertCPU\<lparr>Status := AlertStatusResolved, ResolvedAt := Some 200,
                             UpdatedAt := 200\<rparr>)"
    using C6_evaluate_rules[of amCPU metricsCalm 200, THEN conjunct2, THEN mp,
        OF ex_config(2), THEN bspec, OF r2(2)]
    by (simp add: ex_lookup ruleCPU_def alertCPU_def)
  have d: "EvaluateMetrics metricsHighCPU 100 amDisabled = amDisabled"
    using C6_evaluate_rules[of amDisabled metricsHighCPU 100] by (simp add: ex_config)
  show ?thesis using a b c d ex_rule_high by (simp add: ex_config)
qed

theorem C6_counterexample:
  "ruleCPU 90 \<in> set (rules metricsHighCPU (config amDisabled)) \<and>
   holds (ruleCPU 90) \<and>
   fmlookup (alerts amDisabled) ''system_cpu_high'' = None \<and>
   fmlookup (alerts (EvaluateMetrics metricsHighCPU 100 amDisabled)) ''system_cpu_high'' = None"
  by (simp add: EvaluateMetrics_def amDisabled_def NewAlertManager_def ruleCPU_def rules_def
      systemRules_def metricsHighCPU_def)

text \<open>
  What \<open>SuppressAlert\<close> does.  It succeeds on every stored alert, whatever its status, and
  sets the status to suppressed, the update time to the first clock reading and the
  metadata entry \<open>suppressed_until\<close> to the second clock reading plus the duration.  The
  suppressed alert is not among the active alerts and is among all alerts since any time
  before its creation.  No function of the alert manager reads \<open>suppressed_until\<close>: after
  any sequence of \<open>EvaluateMetrics\<close> calls, at whatever times, the alert is still stored
  with the status suppressed.
\<close>

lemma SuppressAlert_effect:
  assumes "fmlookup (alerts am) aid = Some a"
  shows "\<exists>am' a'.
           SuppressAlert am aid d now1 now2 = Inr am' \<and>
           a' = a\<lparr>Status := AlertStatusSuppressed, UpdatedAt := now1,
                   Metadata := Some (fmupd ''suppressed_until'' (VTime (now2 + d))
                                       (case Metadata a of None \<Rightarrow> fmempty | Some m \<Rightarrow> m))\<rparr> \<and>
           fmlookup (alerts am') aid = Some a' \<and>
           a' |\<notin>| GetActiveAlerts am' \<and>
           (\<forall>since. since < CreatedAt a \<longrightarrow> a' |\<in>| GetAllAlerts am' since) \<and>
           (\<forall>es. \<exists>a''. fmlookup (alerts (evaluateAll es am')) aid = Some a'' \<and>
                        Status a'' = AlertStatusSuppressed \<and>
                        a'' |\<notin>| GetActiveAlerts (evaluateAll es am'))"
proof -
  define a' where "a' = a\<lparr>Status := AlertStatusSuppressed, UpdatedAt := now1,
                   Metadata := Some (fmupd ''suppressed_until'' (VTime (now2 + d))
                                       (case Metadata a of None \<Rightarrow> fmempty | Some m \<Rightarrow> m))\<rparr>"
  define am' where "am' = am\<lparr>alerts := fmupd aid a' (alerts am)\<rparr>"
  have s: "SuppressAlert am aid d now1 now2 = Inr am'"
    using assms by (simp add: SuppressAlert_def am'_def a'_def)
  have l: "fmlookup (alerts am') aid = Some a'" by (simp add: am'_def)
  have st: "Status a' = AlertStatusSuppressed" by (simp add: a'_def)
  have na: "a' |\<notin>| GetActiveAlerts am'" using active_status[of a' am'] st by auto
  have al: "\<forall>since. since < CreatedAt a \<longrightarrow> a' |\<in>| GetAllAlerts am' since"
    using all_alerts_member[OF l] by (simp add: a'_def)
  have ev: "\<forall>es. \<exists>a''. fmlookup (alerts (evaluateAll es am')) aid = Some a'' \<and>
                        Status a'' = AlertStatusSuppressed \<and>
                        a'' |\<notin>| GetActiveAlerts (evaluateAll es am')"
  proof
    fix es
    obtain a'' where x: "fmlookup (alerts (evaluateAll es am')) aid = Some a''"
      "Status a'' = AlertStatusSuppressed"
      using suppressed_kept_all[OF l st] by blast
    have "a'' |\<notin>| GetActiveAlerts (evaluateAll es am')"
      using active_status[of a'' "evaluateAll es am'"] x(2) by auto
    then show "\<exists>a''. fmlookup (alerts (evaluateAll es am')) aid = Some a'' \<and>
                        Status a'' = AlertStatusSuppressed \<and>
                        a'' |\<notin>| GetActiveAlerts (evaluateAll es am')"
      using x by blast
  qed
  show ?thesis using s l na al ev a'_def by blast
qed

definition alertCPUSuppressed :: Alert where
  "alertCPUSuppressed =
     alertCPU\<lparr>Status := AlertStatusSuppressed, UpdatedAt := 200,
               Metadata := Some (fmupd ''suppressed_until'' (VTime (201 + Hour))
                                   (fmap_of_list [(''cpu_usage'', VFloat 90),
                                                  (''threshold'', VFloat 80)]))\<rparr>"

definition amCPUSuppressed :: AlertManager where
  "amCPUSuppressed = amCPU\<lparr>alerts := fmupd ''system_cpu_high'' alertCPUSuppressed (alerts amCPU)\<rparr>"

lemma ex_suppress:
  "SuppressAlert amCPU ''system_cpu_high'' Hour 200 201 = Inr amCPUSuppressed"
  by (simp add: SuppressAlert_def ex_lookup amCPUSuppressed_def alertCPUSuppressed_def
      alertCPU_def)

text \<open>
  Claim C7.  \<open>SuppressAlert\<close> does what the claim says at the time of the call, but the
  suppression never ends.  The alert \<open>system_cpu_high\<close> is active; it is suppressed at time
  200 for one hour, with the deadline \<open>suppressed_until\<close> read at 201; the next
  \<open>EvaluateMetrics\<close> call comes two hours later, after the deadline, with metrics that
  trigger the rule of the alert again.  After that call the alert is still suppressed and
  not among the active alerts, where the claim has it back at its prior status, active:
  only its count and its update time have changed.
\<close>

theorem C7_suppression_never_ends:
  "fmlookup (alerts amCPU) ''system_cpu_high'' = Some alertCPU \<and>
   Status alertCPU = AlertStatusActive \<and>
   SuppressAlert amCPU ''system_cpu_high'' Hour 200 201 = Inr amCPUSuppressed \<and>
   fmlookup (alerts amCPUSuppressed) ''system_cpu_high'' = Some alertCPUSuppressed \<and>
   Status alertCPUSuppressed = AlertStatusSuppressed \<and>
   Metadata alertCPUSuppressed =
     Some (fmupd ''suppressed_until'' (VTime (201 + Hour))
             (fmap_of_list [(''cpu_usage'', VFloat 90), (''threshold'', VFloat 80)])) \<and>
   201 + Hour < 201 + 2 * Hour \<and>
   fmlookup (alerts (EvaluateMetrics metricsHighCPU (201 + 2 * Hour) amCPUSuppressed))
     ''system_cpu_high'' =
     Some (alertCPUSuppressed\<lparr>UpdatedAt := 201 + 2 * Hour, Count := 2\<rparr>) \<and>
   Status (alertCPUSuppressed\<lparr>UpdatedAt := 201 + 2 * Hour, Count := 2\<rparr>) = AlertStatusSuppressed \<and>
   alertCPUSuppressed\<lparr>UpdatedAt := 201 + 2 * Hour, Count := 2\<rparr> |\<notin>|
     GetActiveAlerts (EvaluateMetrics metricsHighCPU (201 + 2 * Hour) amCPUSuppressed)"
proof -
  have c: "config amCPUSuppressed = config (NewAlertManager 0)"
    by (simp add: amCPUSuppressed_def ex_config)
  have e: "EnableAlerts (config amCPUSuppressed)" by (simp add: c ex_config)
  have r: "ruleCPU 90 \<in> set (rules metricsHighCPU (config amCPUSuppressed))"
    unfolding c by (rule ex_rule_high)
  have l: "fmlookup (alerts amCPUSuppressed) ''system_cpu_high'' = Some alertCPUSuppressed"
    by (simp add: amCPUSuppressed_def)
  have m: "mergeMetadata (Metadata alertCPUSuppressed) (rmetadata (ruleCPU 90)) =
           Metadata alertCPUSuppressed"
  proof -
    have "fmupd ''suppressed_until'' (VTime (201 + Hour))
            (fmap_of_list [(''cpu_usage'', VFloat 90), (''threshold'', VFloat 80)]) ++\<^sub>f
          fmap_of_list [(''cpu_usage'', VFloat 90), (''threshold'', VFloat 80)] =
          fmupd ''suppressed_until'' (VTime (201 + Hour))
            (fmap_of_list [(''cpu_usage'', VFloat 90), (''threshold'', VFloat 80)])"
      by (rule fmap_ext) auto
    then show ?thesis
      by (simp add: mergeMetadata_def alertCPUSuppressed_def ruleCPU_def)
  qed
  have x: "fmlookup (alerts (EvaluateMetrics metricsHighCPU (201 + 2 * Hour) amCPUSuppressed))
     ''system_cpu_high'' =
     Some (alertCPUSuppressed\<lparr>UpdatedAt := 201 + 2 * Hour, Count := 2\<rparr>)"
    using EvaluateMetrics_lookup_rule[OF e r, of "201 + 2 * Hour"] m
    by (simp add: l stepAlert_def expired_def ruleCPU_def alertCPUSuppressed_def alertCPU_def)
  have h: "201 + Hour < 201 + 2 * Hour" by (simp add: Hour_def)
  have st: "Status (alertCPUSuppressed\<lparr>UpdatedAt := 201 + 2 * Hour, Count := 2\<rparr>) =
            AlertStatusSuppressed"
    by (simp add: alertCPUSuppressed_def)
  have na: "alertCPUSuppressed\<lparr>UpdatedAt := 201 + 2 * Hour, Count := 2\<rparr> |\<notin>|
     GetActiveAlerts (EvaluateMetrics metricsHighCPU (201 + 2 * Hour) amCPUSuppressed)"
    using active_status[of "alertCPUSuppressed\<lparr>UpdatedAt := 201 + 2 * Hour, Count := 2\<rparr>"
        "EvaluateMetrics metricsHighCPU (201 + 2 * Hour) amCPUSuppressed"] st
    by auto
  show ?thesis
    using x l h ex_suppress st na ex_lookup(1)
    by (simp add: alertCPUSuppressed_def alertCPU_def)
qed

section \<open>The WireGuard configuration file\<close>

text \<open>
  A Go string is a list of bytes.  The server reads and writes one file, the configuration
  of its interface: it is absent, unreadable, or has a content, and a write to it succeeds
  or fails; a failed write leaves the file as it was.  \<open>PersistentKA\<close> is a Go \<open>int\<close>,
  modelled as an integer.
\<close>

record Peer =
  PublicKey :: string
  AllowedIPs :: "string list"
  Endpoint :: string
  PersistentKA :: int

datatype ConfigFile = NotExist | Unreadable | Content string

record WireGuardServer =
  configFile :: ConfigFile
  writable :: bool

datatype WGError = ReadFailed | WriteFailed | ScanFailed

text \<open>\<open>strings.Join\<close>.\<close>

fun Join :: "string list \<Rightarrow> string \<Rightarrow> string" where
  "Join [] sep = []"
| "Join [x] sep = x"
| "Join (x # y # ys) sep = x @ sep @ Join (y # ys) sep"

text \<open>\<open>%d\<close> of an integer.\<close>

definition itoa :: "int \<Rightarrow> string" where
  "itoa i = (if i < 0 then CHR ''-'' # uitoa (nat (- i)) else uitoa (nat i))"

text \<open>The text of a peer section that \<open>AddPeer\<close> appends.\<close>

definition peerConfig :: "Peer \<Rightarrow> string" where
  "peerConfig peer =
     [CHR 0x0A] @ ''[Peer]'' @ [CHR 0x0A] @
     ''PublicKey = '' @ PublicKey peer @ [CHR 0x0A] @
     ''AllowedIPs = '' @ Join (AllowedIPs peer) '', '' @ [CHR 0x0A] @
     (if Endpoint peer \<noteq> [] then ''Endpoint = '' @ Endpoint peer @ [CHR 0x0A] else []) @
     (if PersistentKA peer > 0
      then ''PersistentKeepalive = '' @ itoa (PersistentKA peer) @ [CHR 0x0A] else [])"

definition WriteFile :: "string \<Rightarrow> WireGuardServer \<Rightarrow> WireGuardServer option" where
  "WriteFile s wg = (if writable wg then Some (wg\<lparr>configFile := Content s\<rparr>) else None)"

definition AddPeer :: "Peer \<Rightarrow> WireGuardServer \<Rightarrow> WGError option \<times> WireGuardServer" where
  "AddPeer peer wg =
     (case configFile wg of
        Content content \<Rightarrow>
          (case WriteFile (content @ peerConfig peer) wg of
             None \<Rightarrow> (Some WriteFailed, wg)
           | Some wg' \<Rightarrow> (None, wg'))
      | _ \<Rightarrow> (Some ReadFailed, wg))"

subsection \<open>Go's string functions\<close>

text \<open>
  \<open>strings.Split\<close> and \<open>strings.SplitN\<close> are used with separators of one byte.
  \<open>Split s c\<close> is the list of the pieces of \<open>s\<close> between the occurrences of \<open>c\<close>, never
  empty.
\<close>

fun Split :: "string \<Rightarrow> char \<Rightarrow> string list" where
  "Split [] c = [[]]"
| "Split (x # xs) c =
     (if x = c then [] # Split xs c
      else (case Split xs c of [] \<Rightarrow> [[x]] | l # ls \<Rightarrow> (x # l) # ls))"

fun HasPrefix :: "string \<Rightarrow> string \<Rightarrow> bool" where
  "HasPrefix s [] = True"
| "HasPrefix [] (p # ps) = False"
| "HasPrefix (c # cs) (p # ps) = (c = p \<and> HasPrefix cs ps)"

text \<open>\<open>strings.Contains\<close>: \<open>substr\<close> occurs in \<open>s\<close>.\<close>

fun strings_Contains :: "string \<Rightarrow> string \<Rightarrow> bool" where
  "strings_Contains [] substr = (substr = [])"
| "strings_Contains (c # cs) substr = (HasPrefix (c # cs) substr \<or> strings_Contains cs substr)"

text \<open>
  \<open>strings.TrimSpace\<close> removes the white space of Unicode at both ends.  \<open>spaceRune s\<close> is
  the number of bytes of the white-space character that \<open>s\<close> starts with in UTF-8, 0 when
  it starts with none: the six of ASCII, U+0085, U+00A0, U+1680, U+2000 to U+200A, U+2028,
  U+2029, U+202F, U+205F and U+3000.  \<open>spaceRuneRev\<close> is the same for the end of a string,
  given reversed.
\<close>

definition asciiSpace :: "char \<Rightarrow> bool" where
  "asciiSpace c = ((of_char c :: nat) \<in> {0x09, 0x0A, 0x0B, 0x0C, 0x0D, 0x20})"

definition spaceRune3 :: "nat \<Rightarrow> nat \<Rightarrow> nat \<Rightarrow> bool" where
  "spaceRune3 a b c =
     (a = 0xE1 \<and> b = 0x9A \<and> c = 0x80 \<or>
      a = 0xE2 \<and> b = 0x80 \<and> (0x80 \<le> c \<and> c \<le> 0x8A \<or> c = 0xA8 \<or> c = 0xA9 \<or> c = 0xAF) \<or>
      a = 0xE2 \<and> b = 0x81 \<and> c = 0x9F \<or>
      a = 0xE3 \<and> b = 0x80 \<and> c = 0x80)"

definition spaceRune2 :: "nat \<Rightarrow> nat \<Rightarrow> bool" where
  "spaceRune2 a b = (a = 0xC2 \<and> (b = 0x85 \<or> b = 0xA0))"

fun spaceRune :: "string \<Rightarrow> nat" where
  "spaceRune (a # b # c # s) =
     (if asciiSpace a then 1
      else if spaceRune2 (of_char a) (of_char b) then 2
      else if spaceRune3 (of_char a) (of_char b) (of_char c) then 3 else 0)"
| "spaceRune [a, b] =
     (if asciiSpace a then 1 else if spaceRune2 (of_char a) (of_char b) then 2 else 0)"
| "spaceRune [a] = (if asciiSpace a then 1 else 0)"
| "spaceRune [] = 0"

fun spaceRuneRev :: "string \<Rightarrow> nat" where
  "spaceRuneRev (c # b # a # s) =
     (if asciiSpace c then 1
      else if spaceRune2 (of_char b) (of_char c) then 2
      else if spaceRune3 (of_char a) (of_char b) (of_char c) then 3 else 0)"
| "spaceRuneRev [c, b] =
     (if asciiSpace c then 1 else if spaceRune2 (of_char b) (of_char c) then 2 else 0)"
| "spaceRuneRev [c] = (if asciiSpace c then 1 else 0)"
| "spaceRuneRev [] = 0"

function trimLeft :: "string \<Rightarrow> string" where
  "trimLeft s = (if spaceRune s = 0 then s else trimLeft (drop (spaceRune s) s))"
  by pat_completeness auto
termination
proof (relation "measure length")
  show "wf (measure length)" by simp
next
  fix s :: string
  assume "spaceRune s \<noteq> 0"
  then have "s \<noteq> []" by auto
  then show "(drop (spaceRune s) s, s) \<in> measure length"
    using \<open>spaceRune s \<noteq> 0\<close> by simp
qed

declare trimLeft.simps [simp del]

function trimRightRev :: "string \<Rightarrow> string" where
  "trimRightRev r = (if spaceRuneRev r = 0 then r else trimRightRev (drop (spaceRuneRev r) r))"
  by pat_completeness auto
termination
proof (relation "measure length")
  show "wf (measure length)" by simp
next
  fix r :: string
  assume "spaceRuneRev r \<noteq> 0"
  then have "r \<noteq> []" by auto
  then show "(drop (spaceRuneRev r) r, r) \<in> measure length"
    using \<open>spaceRuneRev r \<noteq> 0\<close> by simp
qed

declare trimRightRev.simps [simp del]

definition TrimSpace :: "string \<Rightarrow> string" where
  "TrimSpace s = rev (trimRightRev (rev (trimLeft s)))"

text \<open>
  \<open>strconv.Atoi\<close>: an optional sign and decimal digits, at least one, of a number that fits
  the 64 bits of an \<open>int\<close>.
\<close>

definition Atoi :: "string \<Rightarrow> int option" where
  "Atoi s =
     (let neg = (s \<noteq> [] \<and> hd s = CHR ''-'');
          ds = (if s \<noteq> [] \<and> (hd s = CHR ''-'' \<or> hd s = CHR ''+'') then tl s else s)
      in if ds = [] \<or> \<not> list_all isDigit ds then None
         else let n = int (foldl (\<lambda>a c. a * 10 + digitVal c) 0 ds);
                  v = (if neg then - n else n)
              in if v < - (2 ^ 63) \<or> v > 2 ^ 63 - 1 then None else Some v)"

subsection \<open>Reading the peers\<close>

text \<open>
  \<open>GetPeers\<close> goes through the lines of the file with a current peer, \<open>None\<close> for the nil
  pointer, and the peers found so far.  \<open>setField\<close> is the \<open>switch\<close> on the key of a line
  \<open>key = value\<close>; \<open>pushPeer\<close> appends the current peer when it has a public key.  A nil
  slice and an empty one are both the empty list.
\<close>

definition emptyPeer :: Peer where
  "emptyPeer = \<lparr>PublicKey = [], AllowedIPs = [], Endpoint = [], PersistentKA = 0\<rparr>"

definition setField :: "string \<Rightarrow> string \<Rightarrow> Peer \<Rightarrow> Peer" where
  "setField key val currentPeer =
     (if key = ''PublicKey'' then currentPeer\<lparr>PublicKey := val\<rparr>
      else if key = ''AllowedIPs'' then currentPeer\<lparr>AllowedIPs := map TrimSpace (Split val (CHR '',''))\<rparr>
      else if key = ''Endpoint'' then currentPeer\<lparr>Endpoint := val\<rparr>
      else if key = ''PersistentKeepalive'' then
        (case Atoi val of None \<Rightarrow> currentPeer | Some keepalive \<Rightarrow> currentPeer\<lparr>PersistentKA := keepalive\<rparr>)
      else currentPeer)"

definition pushPeer :: "Peer option \<Rightarrow> Peer list \<Rightarrow> Peer list" where
  "pushPeer currentPeer peers =
     (case currentPeer of
        None \<Rightarrow> peers
      | Some p \<Rightarrow> if PublicKey p \<noteq> [] then peers @ [p] else peers)"

fun parsePeers :: "string list \<Rightarrow> Peer option \<Rightarrow> Peer list \<Rightarrow> Peer list" where
  "parsePeers [] currentPeer peers = pushPeer currentPeer peers"
| "parsePeers (l # ls) currentPeer peers =
     (let line = TrimSpace l in
      if line = [] \<or> HasPrefix line ''#'' then parsePeers ls currentPeer peers
      else if line = ''[Peer]'' then parsePeers ls (Some emptyPeer) (pushPeer currentPeer peers)
      else (case currentPeer of
              None \<Rightarrow> parsePeers ls currentPeer peers
            | Some p \<Rightarrow>
                if CHR ''='' \<in> set line
                then parsePeers ls
                       (Some (setField (TrimSpace (takeWhile (\<lambda>c. c \<noteq> CHR ''='') line))
                                (TrimSpace (tl (dropWhile (\<lambda>c. c \<noteq> CHR ''='') line))) p))
                       peers
                else parsePeers ls currentPeer peers))"

definition GetPeers :: "WireGuardServer \<Rightarrow> WGError + Peer list" where
  "GetPeers wg =
     (case configFile wg of
        NotExist \<Rightarrow> Inr []
      | Unreadable \<Rightarrow> Inl ReadFailed
      | Content content \<Rightarrow> Inr (parsePeers (Split content (CHR 0x0A)) None []))"

subsection \<open>Removing a peer\<close>

text \<open>
  \<open>bufio.Scanner\<close> with its default split function and buffer: \<open>Scan\<close> on the input that is
  left gives the next line, without its line end and without one carriage return before
  it, and the input after it; the last line needs no line end.  A line of more than 65535
  bytes does not fit the buffer: the scanner stops with an error.
\<close>

datatype ScanResult = ScanEOF | ScanTooLong | ScanToken string string

definition dropCR :: "string \<Rightarrow> string" where
  "dropCR l = (if l \<noteq> [] \<and> last l = CHR 0x0D then butlast l else l)"

definition Scan :: "string \<Rightarrow> ScanResult" where
  "Scan input =
     (if input = [] then ScanEOF
      else let l = takeWhile (\<lambda>c. c \<noteq> CHR 0x0A) input;
               r = dropWhile (\<lambda>c. c \<noteq> CHR 0x0A) input
           in if length l > 65535 then ScanTooLong else ScanToken (dropCR l) (tl r))"

lemma Scan_token:
  assumes "Scan input = ScanToken l r"
  shows "input \<noteq> []" and "l = dropCR (takeWhile (\<lambda>c. c \<noteq> CHR 0x0A) input)"
    and "r = tl (dropWhile (\<lambda>c. c \<noteq> CHR 0x0A) input)"
    and "length (takeWhile (\<lambda>c. c \<noteq> CHR 0x0A) input) \<le> 65535"
proof -
  show ne: "input \<noteq> []"
  proof
    assume "input = []"
    then have "Scan input = ScanEOF" by (simp add: Scan_def)
    then show False using assms by simp
  qed
  define t where "t = takeWhile (\<lambda>c. c \<noteq> CHR 0x0A) input"
  define d where "d = dropWhile (\<lambda>c. c \<noteq> CHR 0x0A) input"
  have u: "Scan input = (if length t > 65535 then ScanTooLong else ScanToken (dropCR t) (tl d))"
    using ne by (simp only: Scan_def Let_def t_def d_def if_False)
  have le: "\<not> length t > 65535"
  proof
    assume "length t > 65535"
    then have "Scan input = ScanTooLong" by (simp only: u if_True)
    then show False using assms by simp
  qed
  then have "Scan input = ScanToken (dropCR t) (tl d)" by (simp only: u if_False)
  then have "l = dropCR t" "r = tl d" using assms by simp_all
  then show "l = dropCR (takeWhile (\<lambda>c. c \<noteq> CHR 0x0A) input)"
    "r = tl (dropWhile (\<lambda>c. c \<noteq> CHR 0x0A) input)"
    by (simp_all only: t_def d_def)
  show "length (takeWhile (\<lambda>c. c \<noteq> CHR 0x0A) input) \<le> 65535"
    using le by (simp only: t_def not_less)
qed

lemma Scan_shorter: "Scan input = ScanToken l r \<Longrightarrow> length r < length input"
proof -
  assume a: "Scan input = ScanToken l r"
  note t = Scan_token[OF a]
  have "length (dropWhile (\<lambda>c. c \<noteq> CHR 0x0A) input) \<le> length input"
    by (rule length_dropWhile_le)
  moreover have "length (tl xs) < length input" if "length xs \<le> length input" for xs :: string
    using that t(1) by (cases xs) auto
  ultimately show ?thesis unfolding t(3) by blast
qed

text \<open>
  The inner loop of \<open>RemovePeer\<close>, entered after a line \<open>[Peer]\<close>: it collects the lines of
  the section in \<open>tempLines\<close> and returns them with \<open>skipPeerSection\<close> and the input of the
  scanner the outer loop goes on with, which is a new scanner on the one line last read
  when that line is empty or starts a section.  \<open>None\<close> is the error of the scanner.
\<close>

function lookAhead :: "string \<Rightarrow> string \<Rightarrow> string list \<Rightarrow> (string list \<times> bool \<times> string) option" where
  "lookAhead publicKey input tempLines =
     (case Scan input of
        ScanEOF \<Rightarrow> Some (tempLines, False, [])
      | ScanTooLong \<Rightarrow> None
      | ScanToken nextLine rest \<Rightarrow>
          if HasPrefix (TrimSpace nextLine) ''PublicKey = '' \<and> strings_Contains nextLine publicKey
          then Some (tempLines @ [nextLine], True, rest)
          else if HasPrefix (TrimSpace nextLine) ''['' \<or> TrimSpace nextLine = []
          then Some (tempLines @ [nextLine], False, nextLine @ [CHR 0x0A])
          else lookAhead publicKey rest (tempLines @ [nextLine]))"
  by pat_completeness auto
termination
  by (relation "measure (\<lambda>(k, input, t). length input)") (auto simp: Scan_shorter)

declare lookAhead.simps [simp del]

lemma trimLeft_length: "length (trimLeft s) \<le> length s"
proof (induction s rule: trimLeft.induct)
  case (1 s)
  show ?case
  proof (cases "spaceRune s = 0")
    case True
    then show ?thesis by (subst trimLeft.simps) simp
  next
    case False
    have "length (trimLeft (drop (spaceRune s) s)) \<le> length (drop (spaceRune s) s)"
      by (rule "1.IH"[OF False])
    then show ?thesis using False by (subst trimLeft.simps) simp
  qed
qed

lemma trimRightRev_length: "length (trimRightRev s) \<le> length s"
proof (induction s rule: trimRightRev.induct)
  case (1 s)
  show ?case
  proof (cases "spaceRuneRev s = 0")
    case True
    then show ?thesis by (subst trimRightRev.simps) simp
  next
    case False
    have "length (trimRightRev (drop (spaceRuneRev s) s)) \<le> length (drop (spaceRuneRev s) s)"
      by (rule "1.IH"[OF False])
    then show ?thesis using False by (subst trimRightRev.simps) simp
  qed
qed

lemma TrimSpace_length: "length (TrimSpace s) \<le> length s"
proof -
  have "length (TrimSpace s) = length (trimRightRev (rev (trimLeft s)))"
    by (simp add: TrimSpace_def)
  also have "\<dots> \<le> length (rev (trimLeft s))" by (rule trimRightRev_length)
  also have "\<dots> \<le> length s" using trimLeft_length[of s] by simp
  finally show ?thesis .
qed

lemma dropCR_length: "length (dropCR l) \<le> length l"
  by (simp add: dropCR_def)

lemma Scan_bound: "Scan input = ScanToken l r \<Longrightarrow> length l + length r \<le> length input"
proof -
  assume a: "Scan input = ScanToken l r"
  note t = Scan_token[OF a]
  define tw where "tw = takeWhile (\<lambda>c. c \<noteq> CHR 0x0A) input"
  define dw where "dw = dropWhile (\<lambda>c. c \<noteq> CHR 0x0A) input"
  have i: "length input = length tw + length dw"
    using takeWhile_dropWhile_id[of "\<lambda>c. c \<noteq> CHR 0x0A" input]
    by (metis tw_def dw_def length_append)
  have "length l \<le> length tw" using dropCR_length[of tw] by (simp only: t(2) tw_def)
  moreover have "length r \<le> length dw" by (simp only: t(3) dw_def[symmetric]) simp
  ultimately show ?thesis using i by simp
qed

lemma lookAhead_bound:
  "lookAhead publicKey input tempLines = Some (t, sk, input') \<Longrightarrow> length input' \<le> length input + 1"
proof (induction publicKey input tempLines rule: lookAhead.induct)
  case (1 publicKey input tempLines)
  show ?case
  proof (cases "Scan input")
    case ScanEOF
    then show ?thesis using "1.prems" by (subst (asm) lookAhead.simps) simp
  next
    case ScanTooLong
    then show ?thesis using "1.prems" by (subst (asm) lookAhead.simps) simp
  next
    case (ScanToken nextLine rest)
    note b = Scan_bound[OF ScanToken]
    show ?thesis
    proof (cases "HasPrefix (TrimSpace nextLine) ''PublicKey = '' \<and> strings_Contains nextLine publicKey")
      case True
      then have "input' = rest" using "1.prems" ScanToken
        by (subst (asm) lookAhead.simps) simp
      then show ?thesis using b by simp
    next
      case False
      show ?thesis
      proof (cases "HasPrefix (TrimSpace nextLine) ''['' \<or> TrimSpace nextLine = []")
        case True
        then have "input' = nextLine @ [CHR 0x0A]" using "1.prems" ScanToken False
          by (subst (asm) lookAhead.simps) auto
        then show ?thesis using b by simp
      next
        case nb: False
        have "lookAhead publicKey rest (tempLines @ [nextLine]) = Some (t, sk, input')"
          using "1.prems" ScanToken False nb by (subst (asm) lookAhead.simps) auto
        then have "length input' \<le> length rest + 1"
          using "1.IH"[OF ScanToken False nb] by blast
        then show ?thesis using b by simp
      qed
    qed
  qed
qed

text \<open>
  The outer loop of \<open>RemovePeer\<close>, on the input of the scanner, with \<open>skipPeerSection\<close> and
  the lines kept so far.
\<close>

function removeLoop :: "string \<Rightarrow> string \<Rightarrow> bool \<Rightarrow> string list \<Rightarrow> string list option" where
  "removeLoop publicKey input skipPeerSection newLines =
     (case Scan input of
        ScanEOF \<Rightarrow> Some newLines
      | ScanTooLong \<Rightarrow> None
      | ScanToken line rest \<Rightarrow>
          if TrimSpace line = ''[Peer]''
          then (case lookAhead publicKey rest [line] of
                  None \<Rightarrow> None
                | Some (tempLines, skip, input') \<Rightarrow>
                    removeLoop publicKey input' skip
                      (if \<not> skip then newLines @ tempLines else newLines))
          else removeLoop publicKey rest
                 (if skipPeerSection \<and> (HasPrefix (TrimSpace line) ''['' \<or> TrimSpace line = [])
                  then False else skipPeerSection)
                 (if \<not> skipPeerSection then newLines @ [line] else newLines))"
  by pat_completeness auto
termination
proof (relation "measure (\<lambda>(k, input, s, n). length input)")
  show "wf (measure (\<lambda>(k, input, s, n). length input))" by simp
next
  fix publicKey input :: string and skipPeerSection :: bool and newLines :: "string list"
    and line rest :: string and x :: "string list \<times> bool \<times> string"
    and tempLines :: "string list" and y :: "bool \<times> string" and skip :: bool and input' :: string
  assume s: "Scan input = ScanToken line rest" and p: "TrimSpace line = ''[Peer]''"
    and l: "lookAhead publicKey rest [line] = Some x" and x: "(tempLines, y) = x" "(skip, input') = y"
  have l': "lookAhead publicKey rest [line] = Some (tempLines, skip, input')"
    using l x by simp
  have "length (TrimSpace line) = 6" by (simp add: p)
  then have six: "6 \<le> length line" using TrimSpace_length[of line] by simp
  have "length input' \<le> length rest + 1" by (rule lookAhead_bound[OF l'])
  then have "length input' < length input" using Scan_bound[OF s] six by simp
  then show "((publicKey, input', skip, if \<not> skip then newLines @ tempLines else newLines),
              publicKey, input, skipPeerSection, newLines)
             \<in> measure (\<lambda>(k, input, s, n). length input)"
    by simp
next
  fix publicKey input :: string and skipPeerSection :: bool and newLines :: "string list"
    and line rest :: string
  assume s: "Scan input = ScanToken line rest"
  show "((publicKey, rest,
          if skipPeerSection \<and> (HasPrefix (TrimSpace line) ''['' \<or> TrimSpace line = [])
          then False else skipPeerSection,
          if \<not> skipPeerSection then newLines @ [line] else newLines),
         publicKey, input, skipPeerSection, newLines)
        \<in> measure (\<lambda>(k, input, s, n). length input)"
    using Scan_shorter[OF s] by simp
qed

declare removeLoop.simps [simp del]

definition RemovePeer :: "string \<Rightarrow> WireGuardServer \<Rightarrow> WGError option \<times> WireGuardServer" where
  "RemovePeer publicKey wg =
     (case configFile wg of
        Content content \<Rightarrow>
          (case removeLoop publicKey content False [] of
             None \<Rightarrow> (Some ScanFailed, wg)
           | Some newLines \<Rightarrow>
               (case WriteFile (Join newLines [CHR 0x0A]) wg of
                  None \<Rightarrow> (Some WriteFailed, wg)
                | Some wg' \<Rightarrow> (None, wg')))
      | _ \<Rightarrow> (Some ReadFailed, wg))"

subsection \<open>A configuration with three peers\<close>

definition exInterface :: string where
  "exInterface = ''[Interface]'' @ [CHR 0x0A] @ ''PrivateKey = k0'' @ [CHR 0x0A] @
                 ''ListenPort = 51820'' @ [CHR 0x0A]"

definition peerA :: Peer where
  "peerA = \<lparr>PublicKey = ''kA'', AllowedIPs = [''10.0.0.2/32''], Endpoint = [], PersistentKA = 0\<rparr>"

definition peerB :: Peer where
  "peerB = \<lparr>PublicKey = ''kB'', AllowedIPs = [''10.0.0.3/32''], Endpoint = [], PersistentKA = 0\<rparr>"

definition peerP :: Peer where
  "peerP = \<lparr>PublicKey = ''kP'', AllowedIPs = [''10.0.0.4/32''], Endpoint = [], PersistentKA = 25\<rparr>"

definition sectionA :: string where
  "sectionA = [CHR 0x0A] @ ''[Peer]'' @ [CHR 0x0A] @ ''PublicKey = kA'' @ [CHR 0x0A] @
              ''AllowedIPs = 10.0.0.2/32'' @ [CHR 0x0A]"

definition sectionB :: string where
  "sectionB = [CHR 0x0A] @ ''[Peer]'' @ [CHR 0x0A] @ ''PublicKey = kB'' @ [CHR 0x0A] @
              ''AllowedIPs = 10.0.0.3/32'' @ [CHR 0x0A]"

definition sectionP :: string where
  "sectionP = [CHR 0x0A] @ ''[Peer]'' @ [CHR 0x0A] @ ''PublicKey = kP'' @ [CHR 0x0A] @
              ''AllowedIPs = 10.0.0.4/32'' @ [CHR 0x0A] @ ''PersistentKeepalive = 25'' @ [CHR 0x0A]"

definition withContent :: "string \<Rightarrow> WireGuardServer" where
  "withContent s = \<lparr>configFile = Content s, writable = True\<rparr>"

lemmas ex_trim = TrimSpace_def trimLeft.simps trimRightRev.simps asciiSpace_def spaceRune2_def
  spaceRune3_def

lemma ex_itoa25: "itoa 25 = ''25''"
  by (simp add: itoa_def uitoa.simps[of 25] uitoa.simps[of 2] digitChar_def)

lemma ex_sections: "peerConfig peerA = sectionA" "peerConfig peerB = sectionB"
  "peerConfig peerP = sectionP"
  by (simp_all add: peerConfig_def peerA_def peerB_def peerP_def sectionA_def sectionB_def
      sectionP_def ex_itoa25)

lemma ex_add:
  "AddPeer peerA (withContent exInterface) = (None, withContent (exInterface @ sectionA))"
  "AddPeer peerB (withContent (exInterface @ sectionA)) =
     (None, withContent (exInterface @ sectionA @ sectionB))"
  "AddPeer peerP (withContent (exInterface @ sectionA @ sectionB)) =
     (None, withContent (exInterface @ sectionA @ sectionB @ sectionP))"
  by (simp_all add: AddPeer_def WriteFile_def withContent_def ex_sections)

lemma ex_get2: "GetPeers (withContent (exInterface @ sectionA @ sectionB)) = Inr [peerA, peerB]"
  by code_simp

lemma ex_get3:
  "GetPeers (withContent (exInterface @ sectionA @ sectionB @ sectionP)) = Inr [peerA, peerB, peerP]"
  by code_simp

lemma ex_remove:
  "RemovePeer ''kP'' (withContent (exInterface @ sectionA @ sectionB @ sectionP)) =
   (None, withContent (exInterface @ sectionA @ [CHR 0x0A]))"
  by (simp add: RemovePeer_def withContent_def removeLoop.simps lookAhead.simps
      Scan_def dropCR_def ex_trim WriteFile_def exInterface_def sectionA_def sectionB_def
      sectionP_def)

lemma ex_get4: "GetPeers (withContent (exInterface @ sectionA @ [CHR 0x0A])) = Inr [peerA]"
  by code_simp

text \<open>
  Removing the first of two peers keeps the second, as the test of \<open>RemovePeer\<close> in the
  repository has it.
\<close>

lemma ex_remove_first:
  "RemovePeer ''kA'' (withContent (exInterface @ sectionA @ sectionB)) =
   (None, withContent (exInterface @ [CHR 0x0A] @ ''[Peer]'' @ [CHR 0x0A] @ ''PublicKey = kB'' @
                         [CHR 0x0A] @ ''AllowedIPs = 10.0.0.3/32''))"
  by (simp add: RemovePeer_def withContent_def removeLoop.simps lookAhead.simps
      Scan_def dropCR_def ex_trim WriteFile_def exInterface_def sectionA_def sectionB_def)

lemma ex_get_first:
  "GetPeers (withContent (exInterface @ [CHR 0x0A] @ ''[Peer]'' @ [CHR 0x0A] @ ''PublicKey = kB'' @
                            [CHR 0x0A] @ ''AllowedIPs = 10.0.0.3/32'')) = Inr [peerB]"
  by code_simp

text \<open>
  Claim C1.  The round trip of the claim, on a file that holds the interface section and
  two peers that \<open>AddPeer\<close> wrote.  After \<open>AddPeer\<close> of a third peer, \<open>GetPeers\<close> returns the
  three peers, the new one once.  \<open>RemovePeer\<close> with the key of the new peer then looks
  ahead through the section of the first peer up to the empty line after it, and there
  replaces the scanner of the file by a scanner of that one line, so that the rest of the
  file is never read: the file it writes holds the interface section and the first peer,
  and \<open>GetPeers\<close> returns the first peer only.  The new peer is gone, and so is the second
  peer, whose section the claim has left intact.
\<close>

theorem C1_remove_peer_loses_sections:
  "AddPeer peerP (withContent (exInterface @ sectionA @ sectionB)) =
     (None, withContent (exInterface @ sectionA @ sectionB @ sectionP)) \<and>
   GetPeers (withContent (exInterface @ sectionA @ sectionB)) = Inr [peerA, peerB] \<and>
   GetPeers (withContent (exInterface @ sectionA @ sectionB @ sectionP)) =
     Inr [peerA, peerB, peerP] \<and>
   RemovePeer (PublicKey peerP) (withContent (exInterface @ sectionA @ sectionB @ sectionP)) =
     (None, withContent (exInterface @ sectionA @ [CHR 0x0A])) \<and>
   GetPeers (withContent (exInterface @ sectionA @ [CHR 0x0A])) = Inr [peerA] \<and>
   peerB \<noteq> peerA \<and> peerB \<noteq> peerP"
proof -
  have k: "PublicKey peerP = ''kP''" by (simp add: peerP_def)
  have d: "peerB \<noteq> peerA" "peerB \<noteq> peerP" by (simp_all add: peerA_def peerB_def peerP_def)
  show ?thesis
    using ex_add(3) ex_get2 ex_get3 ex_remove ex_get4 d unfolding k by blast
qed

section \<open>The create-client handler\<close>

text \<open>
  The handler works on the IP pool, the database and the WireGuard server.  The pool and
  the server are the models above.  The database is reached through gorm, which is not
  part of the program: it is a state of any type with the function \<open>dbCreate\<close> that
  \<open>Database.CreateClient\<close> wraps, which returns an error or nothing, the client record as
  gorm has filled it in, and the new state.  The outcomes of binding the request body and
  of \<open>GenerateKeyPair\<close> are parameters too.
\<close>

record CreateClientRequest =
  reqName :: string

record KeyPair =
  keyPrivateKey :: string
  keyPublicKey :: string

record Client =
  clientID :: "64 word"
  clientName :: string
  clientPublicKey :: string
  clientPrivateKey :: string
  clientIPAddress :: string
  clientEnabled :: bool
  clientCreatedAt :: Time
  clientUpdatedAt :: Time
  clientLastHandshake :: "Time option"
  clientBytesReceived :: "64 word"
  clientBytesSent :: "64 word"

record CreateClientResponse =
  respID :: "64 word"
  respName :: string
  respPublicKey :: string
  respIPAddress :: string
  respEnabled :: bool
  respCreatedAt :: Time

datatype Response = ErrorResponse nat string | CreatedResponse nat CreateClientResponse

definition StatusBadRequest :: nat where "StatusBadRequest = 400"
definition StatusInternalServerError :: nat where "StatusInternalServerError = 500"
definition StatusCreated :: nat where "StatusCreated = 201"

text \<open>The record the handler hands to the database; the fields it leaves out are zero.\<close>

definition newClient :: "CreateClientRequest \<Rightarrow> KeyPair \<Rightarrow> string \<Rightarrow> Client" where
  "newClient req keyPair clientIP =
     \<lparr>clientID = 0, clientName = reqName req, clientPublicKey = keyPublicKey keyPair,
      clientPrivateKey = keyPrivateKey keyPair, clientIPAddress = clientIP, clientEnabled = True,
      clientCreatedAt = 0, clientUpdatedAt = 0, clientLastHandshake = None,
      clientBytesReceived = 0, clientBytesSent = 0\<rparr>"

definition newPeer :: "KeyPair \<Rightarrow> string \<Rightarrow> Peer" where
  "newPeer keyPair clientIP =
     \<lparr>PublicKey = keyPublicKey keyPair, AllowedIPs = [clientIP @ ''/32''], Endpoint = [],
      PersistentKA = 0\<rparr>"

definition clientResponse :: "Client \<Rightarrow> CreateClientResponse" where
  "clientResponse client =
     \<lparr>respID = clientID client, respName = clientName client,
      respPublicKey = clientPublicKey client, respIPAddress = clientIPAddress client,
      respEnabled = clientEnabled client, respCreatedAt = clientCreatedAt client\<rparr>"

text \<open>
  \<open>CreateClient\<close>: the response and the three states after the request.  The result of
  \<open>ReleaseIP\<close> and the result of \<open>AddPeer\<close> are dropped, as in the handler.
\<close>

definition CreateClient ::
  "(string + CreateClientRequest) \<Rightarrow> (string + KeyPair) \<Rightarrow>
   (Client \<Rightarrow> 'db \<Rightarrow> string option \<times> Client \<times> 'db) \<Rightarrow>
   IPPool \<times> 'db \<times> WireGuardServer \<Rightarrow> (Response \<times> IPPool \<times> 'db \<times> WireGuardServer) option" where
  "CreateClient bound generated dbCreate st =
     (case st of (ipPool, db, wgServer) \<Rightarrow>
      case bound of
        Inl err \<Rightarrow> Some (ErrorResponse StatusBadRequest err, ipPool, db, wgServer)
      | Inr req \<Rightarrow>
      case generated of
        Inl err \<Rightarrow>
          Some (ErrorResponse StatusInternalServerError ''Failed to generate client keys'',
                ipPool, db, wgServer)
      | Inr keyPair \<Rightarrow>
      case AllocateIP ipPool of
        None \<Rightarrow> None
      | Some (Inl err, ipPool1) \<Rightarrow>
          Some (ErrorResponse StatusInternalServerError ''Failed to allocate IP address'',
                ipPool1, db, wgServer)
      | Some (Inr clientIP, ipPool1) \<Rightarrow>
      case dbCreate (newClient req keyPair clientIP) db of
        (Some err, client, db1) \<Rightarrow>
          Some (ErrorResponse StatusInternalServerError ''Failed to create client'',
                (case ReleaseIP ipPool1 clientIP of Inl err \<Rightarrow> ipPool1 | Inr ipPool2 \<Rightarrow> ipPool2),
                db1, wgServer)
      | (None, client, db1) \<Rightarrow>
          Some (CreatedResponse StatusCreated (clientResponse client), ipPool1, db1,
                snd (AddPeer (newPeer keyPair clientIP) wgServer)))"

lemma AllocateIP_release:
  assumes "pool_inv p" and "AllocateIP p = Some (Inr ip, p1)"
  shows "ReleaseIP p1 ip = Inr p" and "IsAllocated p1 ip" and "\<not> IsAllocated p ip"
proof -
  obtain P a4 k4 where n: "net_inv P a4 k4 p" and m: "map_inv p"
    using assms(1) by (auto simp: pool_inv_def)
  from AllocateIP_spec[OF n] assms(2)
  obtain x4 where x: "length x4 = 4" "ipv (net4 a4 k4) + 2 \<le> ipv x4"
    "ipv x4 < ipv (bcast4 a4 k4)" "\<not> isSet (allocated p) (dotted x4)"
    "ip = dotted x4" "p1 = p\<lparr>allocated := fmupd (dotted x4) True (allocated p)\<rparr>"
    by auto
  note f = net_inv_facts[OF n]
  have none: "fmlookup (allocated p) ip = None"
    using m x(4) unfolding x(5) by (intro not_isSet_dom) (simp_all add: map_inv_def)
  then have nd: "ip |\<notin>| fmdom (allocated p)" by (simp add: fmdom_notI)
  have parse: "ParseIP ip = Some (v4InV6Prefix @ x4)" unfolding x(5) by (rule ParseIP_dotted[OF x(1)])
  have c: "Contains (ipNet p1) (v4InV6Prefix @ x4)"
    unfolding x(6) using shape_Contains_range[OF f(7) x(1)] x(2,3) by simp
  have ns: "ip \<noteq> serverIP p1" using net_inv_fresh(3)[OF n x(1,2,3)] by (simp add: x(5,6))
  have s: "isSet (allocated p1) ip" by (simp add: x(5,6) isSet_def)
  have d: "fmdrop ip (allocated p1) = allocated p"
    using fmdrop_idle[OF nd] by (simp add: x(6) x(5)[symmetric] fmdrop_fmupd_same)
  have "ReleaseIP p1 ip = Inr (p1\<lparr>allocated := fmdrop ip (allocated p1)\<rparr>)"
    using parse c ns s by (simp add: ReleaseIP_def)
  also have "p1\<lparr>allocated := fmdrop ip (allocated p1)\<rparr> = p" unfolding d by (simp add: x(6))
  finally show "ReleaseIP p1 ip = Inr p" .
  show "IsAllocated p1 ip" using s by (simp add: IsAllocated_def)
  show "\<not> IsAllocated p ip" using x(4) by (simp add: IsAllocated_def x(5))
qed

lemma AllocateIP_returns:
  assumes "pool_inv p"
  shows "\<exists>r p1. AllocateIP p = Some (r, p1)"
proof -
  obtain P a4 k4 where n: "net_inv P a4 k4 p" using assms by (auto simp: pool_inv_def)
  from AllocateIP_spec[OF n] show ?thesis by auto
qed

text \<open>
  Claim C8.  In a pool that \<open>NewIPPool\<close> built and allocations and releases have changed,
  take a request that binds, with a key pair generated and an address allocated; the
  handler hands the database a client with the name of the request, the two keys, that
  address and the enabled flag.  If the database then fails to create the client, the
  handler answers 500 and has released that address: the release succeeds and the pool is
  again as it was before the request, with the address free; the WireGuard configuration
  is untouched.  If the database creates the client, the handler answers 201 with the id,
  name, public key, address, enabled flag and creation time of the client as the database
  returned it, whatever \<open>AddPeer\<close> returns for the peer with that public key and the address
  as a /32: the address stays allocated, the database is left as the creation left it, and
  a failed \<open>AddPeer\<close> leaves the configuration as it was.
\<close>

theorem C8_create_client_rollback:
  assumes "reachable ipPool"
    and "AllocateIP ipPool = Some (Inr clientIP, ipPool1)"
    and "dbCreate \<lparr>clientID = 0, clientName = reqName req,
                    clientPublicKey = keyPublicKey keyPair,
                    clientPrivateKey = keyPrivateKey keyPair, clientIPAddress = clientIP,
                    clientEnabled = True, clientCreatedAt = 0, clientUpdatedAt = 0,
                    clientLastHandshake = None, clientBytesReceived = 0,
                    clientBytesSent = 0\<rparr> db = (err, client, db1)"
  shows "CreateClient (Inr req) (Inr keyPair) dbCreate (ipPool, db, wgServer) =
           Some (if err \<noteq> None
                 then (ErrorResponse 500 ''Failed to create client'', ipPool, db1, wgServer)
                 else (CreatedResponse 201
                         \<lparr>respID = clientID client, respName = clientName client,
                          respPublicKey = clientPublicKey client,
                          respIPAddress = clientIPAddress client,
                          respEnabled = clientEnabled client,
                          respCreatedAt = clientCreatedAt client\<rparr>,
                       ipPool1, db1,
                       snd (AddPeer \<lparr>PublicKey = keyPublicKey keyPair,
                                     AllowedIPs = [clientIP @ ''/32''], Endpoint = [],
                                     PersistentKA = 0\<rparr> wgServer))) \<and>
         ReleaseIP ipPool1 clientIP = Inr ipPool \<and>
         \<not> IsAllocated ipPool clientIP \<and> IsAllocated ipPool1 clientIP \<and>
         (fst (AddPeer \<lparr>PublicKey = keyPublicKey keyPair, AllowedIPs = [clientIP @ ''/32''],
                        Endpoint = [], PersistentKA = 0\<rparr> wgServer) \<noteq> None \<longrightarrow>
          snd (AddPeer \<lparr>PublicKey = keyPublicKey keyPair, AllowedIPs = [clientIP @ ''/32''],
                        Endpoint = [], PersistentKA = 0\<rparr> wgServer) = wgServer)"
proof -
  note r = AllocateIP_release[OF reachable_inv[OF assms(1)] assms(2)]
  have d: "dbCreate (newClient req keyPair clientIP) db = (err, client, db1)"
    using assms(3) by (simp add: newClient_def)
  have "CreateClient (Inr req) (Inr keyPair) dbCreate (ipPool, db, wgServer) =
           Some (if err \<noteq> None
                 then (ErrorResponse 500 ''Failed to create client'', ipPool, db1, wgServer)
                 else (CreatedResponse 201
                         \<lparr>respID = clientID client, respName = clientName client,
                          respPublicKey = clientPublicKey client,
                          respIPAddress = clientIPAddress client,
                          respEnabled = clientEnabled client,
                          respCreatedAt = clientCreatedAt client\<rparr>,
                       ipPool1, db1,
                       snd (AddPeer \<lparr>PublicKey = keyPublicKey keyPair,
                                     AllowedIPs = [clientIP @ ''/32''], Endpoint = [],
                                     PersistentKA = 0\<rparr> wgServer)))"
    by (cases err)
       (simp_all add: CreateClient_def assms(2) d r(1) StatusInternalServerError_def
          StatusCreated_def clientResponse_def newPeer_def)
  moreover have "fst (AddPeer peer wgServer) \<noteq> None \<longrightarrow> snd (AddPeer peer wgServer) = wgServer"
    for peer
    by (simp add: AddPeer_def WriteFile_def split: ConfigFile.splits)
  ultimately show ?thesis using r by simp
qed

definition dbFails :: "Client \<Rightarrow> Client list \<Rightarrow> string option \<times> Client \<times> Client list" where
  "dbFails client db = (Some ''UNIQUE constraint failed: clients.public_key'', client, db)"

definition dbStores :: "Client \<Rightarrow> Client list \<Rightarrow> string option \<times> Client \<times> Client list" where
  "dbStores client db =
     (None, client\<lparr>clientID := 1, clientCreatedAt := 5, clientUpdatedAt := 5\<rparr>,
      db @ [client\<lparr>clientID := 1, clientCreatedAt := 5, clientUpdatedAt := 5\<rparr>])"

definition exRequest :: CreateClientRequest where
  "exRequest = \<lparr>reqName = ''laptop''\<rparr>"

definition exKeys :: KeyPair where
  "exKeys = \<lparr>keyPrivateKey = ''cHJpdmF0ZQ=='', keyPublicKey = ''cHVibGlj''\<rparr>"

definition exClient :: Client where
  "exClient =
     \<lparr>clientID = 0, clientName = ''laptop'', clientPublicKey = ''cHVibGlj'',
      clientPrivateKey = ''cHJpdmF0ZQ=='', clientIPAddress = ''10.0.0.2'', clientEnabled = True,
      clientCreatedAt = 0, clientUpdatedAt = 0, clientLastHandshake = None,
      clientBytesReceived = 0, clientBytesSent = 0\<rparr>"

definition exStored :: Client where
  "exStored = exClient\<lparr>clientID := 1, clientCreatedAt := 5, clientUpdatedAt := 5\<rparr>"

definition noConfig :: WireGuardServer where
  "noConfig = \<lparr>configFile = NotExist, writable = True\<rparr>"

theorem C8_witness:
  "reachable pool29 \<and>
   AllocateIP pool29 = Some (Inr ''10.0.0.2'',
     pool29\<lparr>allocated := fmupd ''10.0.0.2'' True (fmupd ''10.0.0.1'' True fmempty)\<rparr>) \<and>
   CreateClient (Inr exRequest) (Inr exKeys) dbFails (pool29, [], noConfig) =
     Some (ErrorResponse 500 ''Failed to create client'', pool29, [], noConfig) \<and>
   \<not> IsAllocated pool29 ''10.0.0.2'' \<and>
   AddPeer \<lparr>PublicKey = ''cHVibGlj'', AllowedIPs = [''10.0.0.2/32''], Endpoint = [],
            PersistentKA = 0\<rparr> noConfig = (Some ReadFailed, noConfig) \<and>
   CreateClient (Inr exRequest) (Inr exKeys) dbStores (pool29, [], noConfig) =
     Some (CreatedResponse 201
             \<lparr>respID = 1, respName = ''laptop'', respPublicKey = ''cHVibGlj'',
              respIPAddress = ''10.0.0.2'', respEnabled = True, respCreatedAt = 5\<rparr>,
           pool29\<lparr>allocated := fmupd ''10.0.0.2'' True (fmupd ''10.0.0.1'' True fmempty)\<rparr>,
           [exStored], noConfig) \<and>
   IsAllocated (pool29\<lparr>allocated := fmupd ''10.0.0.2'' True (fmupd ''10.0.0.1'' True fmempty)\<rparr>)
     ''10.0.0.2''"
proof -
  have f: "dbFails \<lparr>clientID = 0, clientName = reqName exRequest,
                    clientPublicKey = keyPublicKey exKeys,
                    clientPrivateKey = keyPrivateKey exKeys, clientIPAddress = ''10.0.0.2'',
                    clientEnabled = True, clientCreatedAt = 0, clientUpdatedAt = 0,
                    clientLastHandshake = None, clientBytesReceived = 0,
                    clientBytesSent = 0\<rparr> [] =
           (Some ''UNIQUE constraint failed: clients.public_key'', exClient, [])"
    by (simp add: dbFails_def exClient_def exRequest_def exKeys_def)
  have s: "dbStores \<lparr>clientID = 0, clientName = reqName exRequest,
                    clientPublicKey = keyPublicKey exKeys,
                    clientPrivateKey = keyPrivateKey exKeys, clientIPAddress = ''10.0.0.2'',
                    clientEnabled = True, clientCreatedAt = 0, clientUpdatedAt = 0,
                    clientLastHandshake = None, clientBytesReceived = 0,
                    clientBytesSent = 0\<rparr> [] = (None, exStored, [exStored])"
    by (simp add: dbStores_def exStored_def exClient_def exRequest_def exKeys_def)
  have a: "AddPeer \<lparr>PublicKey = ''cHVibGlj'', AllowedIPs = [''10.0.0.2/32''], Endpoint = [],
            PersistentKA = 0\<rparr> noConfig = (Some ReadFailed, noConfig)"
    by (simp add: AddPeer_def noConfig_def)
  have k: "keyPublicKey exKeys = ''cHVibGlj''" by (simp add: exKeys_def)
  have v: "clientID exStored = 1" "clientName exStored = ''laptop''"
    "clientPublicKey exStored = ''cHVibGlj''" "clientIPAddress exStored = ''10.0.0.2''"
    "clientEnabled exStored" "clientCreatedAt exStored = 5"
    by (simp_all add: exStored_def exClient_def)
  show ?thesis
    using C8_create_client_rollback[where dbCreate = dbFails and req = exRequest
          and keyPair = exKeys and db = "[]" and wgServer = noConfig,
          OF ex_reachable ex_alloc1 f]
      C8_create_client_rollback[where dbCreate = dbStores and req = exRequest
          and keyPair = exKeys and db = "[]" and wgServer = noConfig,
          OF ex_reachable ex_alloc1 s]
      ex_reachable ex_alloc1 a
    by (simp add: k v)
qed

end
